theory Spec2Isabelle
  imports Main "HOL-Library.Word"
begin

section \<open>Graph primitives\<close>

text \<open>
  Nodes and edges are heap objects that the scanner and the plan mutate through pointers.
  A pointer is modelled as an index into a store; the store maps every index to a record.
  Time stamps are 64-bit signed integers in the source; they are only copied and compared,
  never computed with, so they are modelled as integers.
\<close>

type_synonym TimeStamp = int
type_synonym node_id = nat
type_synonym edge_id = nat

datatype VisitMark = Unvisited | VisitInStack | VisitDone

record Node =
  path :: string
  mtime :: TimeStamp
  dirty :: bool
  precomputed_mtime :: TimeStamp
  precomputed_dirtiness :: bool
  in_edge :: "edge_id option"
  out_edges :: "edge_id list"
  dep_scan_out_edges :: "edge_id list"

record DepScanInfo =
  valid :: bool
  restat :: bool
  generator :: bool
  deps :: bool
  depfile :: bool
  command_hash :: "64 word"

text \<open>
  An evaluation string is a sequence of literal pieces and variable references; a rule
  is a name with its bindings.
\<close>

datatype EvalToken = Lit string | Var string

type_synonym EvalString = "EvalToken list"

record Rule =
  rule_name :: string
  bindings :: "(string \<times> EvalString) list"

definition kPhonyRule :: Rule where
  "kPhonyRule = \<lparr>rule_name = ''phony'', bindings = []\<rparr>"

record Edge =
  rule :: Rule
  inputs :: "node_id list"
  outputs :: "node_id list"
  implicit_deps :: nat
  order_only_deps :: nat
  implicit_outs :: nat
  explicit_outs :: nat
  unevaled_bindings :: "(string \<times> EvalString) list"
  mark :: VisitMark
  edge_precomputed_dirtiness :: bool
  outputs_ready :: bool
  deps_missing :: bool
  dep_scan_info :: DepScanInfo
  phony_output :: bool

record LogEntry =
  entry_command_hash :: "64 word"
  entry_mtime :: TimeStamp

text \<open>The build log is optional (a null pointer in the source); it is looked up by output path.\<close>

type_synonym BuildLog = "string \<Rightarrow> LogEntry option"

text \<open>Edge::is_phony compares the rule pointer with the phony rule singleton.\<close>

definition is_phony :: "Edge \<Rightarrow> bool" where
  "is_phony e = (rule e = kPhonyRule)"

text \<open>
  Modelled from the spec: the accessors of graph.h are not among the sources. The spec's
  data model gives the mtime encoding (0 is a missing file, -1 is not yet known) and the
  cached DepScanInfo flags that IsRestat, IsGenerator, UsesDepsLog, UsesDepfile and
  GetCommandHash read.
\<close>

definition exists_node :: "Node \<Rightarrow> bool" where
  "exists_node n = (mtime n \<noteq> 0)"

definition status_known :: "Node \<Rightarrow> bool" where
  "status_known n = (mtime n \<noteq> - 1)"

definition IsRestat :: "Edge \<Rightarrow> bool" where
  "IsRestat e = restat (dep_scan_info e)"

definition IsGenerator :: "Edge \<Rightarrow> bool" where
  "IsGenerator e = generator (dep_scan_info e)"

definition UsesDepsLog :: "Edge \<Rightarrow> bool" where
  "UsesDepsLog e = deps (dep_scan_info e)"

definition UsesDepfile :: "Edge \<Rightarrow> bool" where
  "UsesDepfile e = depfile (dep_scan_info e)"

definition GetCommandHash :: "Edge \<Rightarrow> 64 word" where
  "GetCommandHash e = command_hash (dep_scan_info e)"


section \<open>Output dirtiness\<close>

text \<open>
  Every EXPLAIN of RecomputeOutputDirty, with the arguments of its format string. The
  function returns its boolean result together with the explanations it emitted.
\<close>

datatype Explanation =
    PhonyOutputMissing string
  | OutputMissing string
  | OutputOlder bool string string TimeStamp TimeStamp
  | CommandLineChanged string
  | RecordedMtimeOlder string string TimeStamp TimeStamp
  | CommandNotInLog string

text \<open>
  The restat lookup of the mtime test: the log entry that replaces the on-disk mtime, when
  the edge is a restat rule, a build log is present and it has an entry for the output.
\<close>

definition restat_entry :: "BuildLog option \<Rightarrow> Edge \<Rightarrow> Node \<Rightarrow> LogEntry option" where
  "restat_entry build_log edge output =
     (if IsRestat edge then
        (case build_log of None \<Rightarrow> None | Some lg \<Rightarrow> lg (path output))
      else None)"

text \<open>
  The mtime test of RecomputeOutputDirty (the block "Dirty if the output is older than the
  input"). It returns the log entry found by the restat lookup, which the rest of the
  function reuses, and the explanation when the test reports the output dirty.
\<close>

definition mtime_check ::
  "BuildLog option \<Rightarrow> Edge \<Rightarrow> Node option \<Rightarrow> Node \<Rightarrow> LogEntry option \<times> Explanation option" where
  "mtime_check build_log edge most_recent_input output =
     (case most_recent_input of
        None \<Rightarrow> (None, None)
      | Some inp \<Rightarrow>
          if mtime output < mtime inp then
            let entry = restat_entry build_log edge output;
                used_restat = (entry \<noteq> None);
                output_mtime = (case entry of None \<Rightarrow> mtime output | Some en \<Rightarrow> entry_mtime en)
            in if output_mtime < mtime inp
               then (entry, Some (OutputOlder used_restat (path output) (path inp)
                                    output_mtime (mtime inp)))
               else (entry, None)
          else (None, None))"

text \<open>
  The build log block of RecomputeOutputDirty (the block under "if (build_log())"), entered
  with the entry that the mtime test may already have looked up.
\<close>

definition build_log_check ::
  "BuildLog option \<Rightarrow> Edge \<Rightarrow> Node option \<Rightarrow> 64 word \<Rightarrow> Node \<Rightarrow> LogEntry option
     \<Rightarrow> bool \<times> Explanation list" where
  "build_log_check build_log edge most_recent_input cmd_hash output entry0 =
     (case build_log of
        None \<Rightarrow> (False, [])
      | Some lg \<Rightarrow>
          (case (case entry0 of Some en \<Rightarrow> Some en | None \<Rightarrow> lg (path output)) of
             Some en \<Rightarrow>
               if \<not> IsGenerator edge \<and> cmd_hash \<noteq> entry_command_hash en
               then (True, [CommandLineChanged (path output)])
               else (case most_recent_input of
                       Some inp \<Rightarrow>
                         if entry_mtime en < mtime inp
                         then (True, [RecordedMtimeOlder (path output) (path inp)
                                        (entry_mtime en) (mtime inp)])
                         else (False, [])
                     | None \<Rightarrow> (False, []))
           | None \<Rightarrow>
               if \<not> IsGenerator edge then (True, [CommandNotInLog (path output)])
               else (False, [])))"

definition RecomputeOutputDirty ::
  "BuildLog option \<Rightarrow> Edge \<Rightarrow> Node option \<Rightarrow> 64 word \<Rightarrow> Node \<Rightarrow> bool \<times> Explanation list" where
  "RecomputeOutputDirty build_log edge most_recent_input cmd_hash output =
     (if is_phony edge then
        (if inputs edge = [] \<and> \<not> exists_node output
         then (True, [PhonyOutputMissing (path output)])
         else (False, []))
      else if \<not> exists_node output then (True, [OutputMissing (path output)])
      else
        (case mtime_check build_log edge most_recent_input output of
           (entry, Some ex) \<Rightarrow> (True, [ex])
         | (entry, None) \<Rightarrow>
             build_log_check build_log edge most_recent_input cmd_hash output entry))"

section \<open>Edge evaluator\<close>

datatype EvalPhase = kParseTime | kFinalScope

datatype EscapeKind = kShellEscape | kDoNotEscape

text \<open>
  The collaborators of the evaluator that live outside the sources: shell escaping, the
  evaluation of an edge-local binding in its scope, and the two scope lookups of the
  fallback. They are parameters of the model.
\<close>

record EvalEnv =
  GetShellEscapedString :: "string \<Rightarrow> string"
  EvaluateBindingInScope :: "EvalString \<Rightarrow> string"
  Scope_EvaluateVariableAtPos :: "string \<Rightarrow> string"
  Scope_EvaluateVariable :: "string \<Rightarrow> string"

text \<open>The fields of an EdgeEval object that an evaluation only reads.\<close>

record EdgeEval =
  edge_of :: Edge
  eval_phase :: EvalPhase
  escape_in_out :: EscapeKind

text \<open>
  What an evaluation writes: the output string, the error string, and the record of the
  rule bindings looked up so far (a counter and a fixed array of names).
\<close>

record EvalState =
  out_append :: string
  eval_err :: string
  recursion_count :: nat
  recursion_vars :: "string list"

text \<open>
  Modelled from the spec: the constant is declared in graph.h, which is not among the
  sources; the spec describes it as a small implementation constant of about 16.
\<close>

definition kEvalRecursionLimit :: nat where
  "kEvalRecursionLimit = 16"

definition initial_EvalState :: EvalState where
  "initial_EvalState = \<lparr>out_append = [], eval_err = [], recursion_count = 0,
                          recursion_vars = replicate kEvalRecursionLimit []\<rparr>"

text \<open>Node::PathDecanonicalized outside Windows returns the path unchanged.\<close>

definition PathDecanonicalized :: "Node \<Rightarrow> string" where
  "PathDecanonicalized n = path n"

fun AppendPathList_from ::
  "EvalEnv \<Rightarrow> EscapeKind \<Rightarrow> (node_id \<Rightarrow> Node) \<Rightarrow> char \<Rightarrow> bool \<Rightarrow> node_id list \<Rightarrow> string \<Rightarrow> string" where
  "AppendPathList_from env esc nodes sep first [] out = out"
| "AppendPathList_from env esc nodes sep first (n # ns) out =
     (let out1 = (if first then out else out @ [sep]);
          p = PathDecanonicalized (nodes n);
          out2 = (if esc = kShellEscape then out1 @ GetShellEscapedString env p else out1 @ p)
      in AppendPathList_from env esc nodes sep False ns out2)"

definition AppendPathList ::
  "EvalEnv \<Rightarrow> EscapeKind \<Rightarrow> (node_id \<Rightarrow> Node) \<Rightarrow> node_id list \<Rightarrow> char \<Rightarrow> string \<Rightarrow> string" where
  "AppendPathList env esc nodes ns sep out = AppendPathList_from env esc nodes sep True ns out"

text \<open>Edge::EvaluateVariableSelfOnly: the last matching edge-local binding wins.\<close>

definition EvaluateVariableSelfOnly :: "EvalEnv \<Rightarrow> Edge \<Rightarrow> string \<Rightarrow> string option" where
  "EvaluateVariableSelfOnly env e var =
     map_option (EvaluateBindingInScope env) (map_of (rev (unevaled_bindings e)) var)"

text \<open>Modelled from the spec: Rule::GetBinding returns the rule's binding of a name, if any.\<close>

definition GetBinding :: "Rule \<Rightarrow> string \<Rightarrow> EvalString option" where
  "GetBinding r var = map_of (bindings r) var"

text \<open>The text of the cycle error: the recorded names from the first up to its first repetition.\<close>

fun cycle_tail :: "string \<Rightarrow> string list \<Rightarrow> string" where
  "cycle_tail v0 [] = []"
| "cycle_tail v0 (v # vs) = '' -> '' @ v @ (if v = v0 then [] else cycle_tail v0 vs)"

definition cycle_text :: "string list \<Rightarrow> string" where
  "cycle_text vars = hd vars @ cycle_tail (hd vars) (tl vars)"

text \<open>
  EdgeEval::EvaluateVariable, and the evaluation of a rule binding that calls back into it.
  Modelled from the spec: EvaluateBindingOnRule is not among the sources; it appends the
  literal pieces of the binding and evaluates each variable reference through
  EvaluateVariable, stopping at the first failure.

  The first argument bounds the depth of the recursion; None means the bound was too
  small. \<open>EvaluateVariable_total\<close> below shows that a depth of kEvalRecursionLimit + 1
  always suffices.
\<close>

fun EvaluateVariable ::
    "nat \<Rightarrow> EvalEnv \<Rightarrow> (node_id \<Rightarrow> Node) \<Rightarrow> EdgeEval \<Rightarrow> string \<Rightarrow> EvalState \<Rightarrow> (bool \<times> EvalState) option"
  and EvaluateBindingOnRule ::
    "nat \<Rightarrow> EvalEnv \<Rightarrow> (node_id \<Rightarrow> Node) \<Rightarrow> EdgeEval \<Rightarrow> EvalString \<Rightarrow> EvalState \<Rightarrow> (bool \<times> EvalState) option"
  where
  "EvaluateVariable 0 env nodes ev var st = None"
| "EvaluateVariable (Suc fuel) env nodes ev var st =
     (let e = edge_of ev in
      if var = ''in'' \<or> var = ''in_newline'' then
        Some (True, st\<lparr>out_append :=
          AppendPathList env (escape_in_out ev) nodes
            (take (length (inputs e) - implicit_deps e - order_only_deps e) (inputs e))
            (if var = ''in'' then CHR '' '' else CHR 0x0A) (out_append st)\<rparr>)
      else if var = ''out'' then
        Some (True, st\<lparr>out_append :=
          AppendPathList env (escape_in_out ev) nodes
            (take (length (outputs e) - implicit_outs e) (outputs e))
            (CHR '' '') (out_append st)\<rparr>)
      else
        (case EvaluateVariableSelfOnly env e var of
           Some s \<Rightarrow> Some (True, st\<lparr>out_append := out_append st @ s\<rparr>)
         | None \<Rightarrow>
             (case GetBinding (rule e) var of
                Some binding_pattern \<Rightarrow>
                  if recursion_count st = kEvalRecursionLimit then
                    Some (False, st\<lparr>eval_err :=
                      ''cycle in rule variables: '' @ cycle_text (recursion_vars st)\<rparr>)
                  else
                    EvaluateBindingOnRule fuel env nodes ev binding_pattern
                      (st\<lparr>recursion_vars := (recursion_vars st)[recursion_count st := var],
                          recursion_count := Suc (recursion_count st)\<rparr>)
              | None \<Rightarrow>
                  Some (True, st\<lparr>out_append := out_append st @
                    (if eval_phase ev = kParseTime then Scope_EvaluateVariableAtPos env var
                     else Scope_EvaluateVariable env var)\<rparr>))))"
| "EvaluateBindingOnRule fuel env nodes ev [] st = Some (True, st)"
| "EvaluateBindingOnRule fuel env nodes ev (Lit s # ts) st =
     EvaluateBindingOnRule fuel env nodes ev ts (st\<lparr>out_append := out_append st @ s\<rparr>)"
| "EvaluateBindingOnRule fuel env nodes ev (Var v # ts) st =
     (case EvaluateVariable fuel env nodes ev v st of
        None \<Rightarrow> None
      | Some (False, st') \<Rightarrow> Some (False, st')
      | Some (True, st') \<Rightarrow> EvaluateBindingOnRule fuel env nodes ev ts st')"

text \<open>Edge::EvaluateVariable: a fresh EdgeEval object evaluates the key.\<close>

definition Edge_EvaluateVariable ::
  "EvalEnv \<Rightarrow> (node_id \<Rightarrow> Node) \<Rightarrow> Edge \<Rightarrow> string \<Rightarrow> string \<Rightarrow> string \<Rightarrow> EvalPhase \<Rightarrow> EscapeKind
     \<Rightarrow> (bool \<times> EvalState) option" where
  "Edge_EvaluateVariable env nodes e out key err phase escape =
     EvaluateVariable (Suc kEvalRecursionLimit) env nodes
       \<lparr>edge_of = e, eval_phase = phase, escape_in_out = escape\<rparr> key
       (initial_EvalState\<lparr>out_append := out, eval_err := err\<rparr>)"

text \<open>
  The chain of rule-binding lookups. A variable is looked up through the rule when it is
  not one of the special names, has no edge-local binding and has a rule binding; it then
  refers to the variables of its binding. A chain is a list of such variables, each
  referred to by its predecessor.
\<close>

definition rule_bound :: "EvalEnv \<Rightarrow> Edge \<Rightarrow> string \<Rightarrow> bool" where
  "rule_bound env e v =
     (v \<noteq> ''in'' \<and> v \<noteq> ''in_newline'' \<and> v \<noteq> ''out''
      \<and> EvaluateVariableSelfOnly env e v = None \<and> GetBinding (rule e) v \<noteq> None)"

fun var_refs :: "EvalString \<Rightarrow> string list" where
  "var_refs [] = []"
| "var_refs (Lit s # ts) = var_refs ts"
| "var_refs (Var v # ts) = v # var_refs ts"

definition rule_refs :: "Edge \<Rightarrow> string \<Rightarrow> string list" where
  "rule_refs e v = (case GetBinding (rule e) v of None \<Rightarrow> [] | Some pat \<Rightarrow> var_refs pat)"

fun is_chain :: "EvalEnv \<Rightarrow> Edge \<Rightarrow> string list \<Rightarrow> bool" where
  "is_chain env e [] = True"
| "is_chain env e [v] = rule_bound env e v"
| "is_chain env e (v # w # vs) =
     (rule_bound env e v \<and> w \<in> set (rule_refs e v) \<and> is_chain env e (w # vs))"

section \<open>Disk interface and the interrupt cleanup\<close>

text \<open>
  Modelled from the spec: DiskInterface is an abstract interface whose implementations are
  not among the sources. A disk state of any type \<open>'d\<close> is read by Stat, LStat and
  ReadFile and changed by RemoveFile. Stat and LStat return the time stamp (0 for a missing
  file, -1 for an error) and the message they write to the error string on an error; LStat
  also returns what it leaves in the is_dir flag of a caller that had cleared it.
\<close>

datatype ReadResult = Okay string | NotFound string | OtherError string

record 'd DiskInterface =
  Stat :: "'d \<Rightarrow> string \<Rightarrow> TimeStamp \<times> string"
  LStat :: "'d \<Rightarrow> string \<Rightarrow> TimeStamp \<times> bool \<times> string"
  ReadFile :: "'d \<Rightarrow> string \<Rightarrow> ReadResult"
  RemoveFile :: "'d \<Rightarrow> string \<Rightarrow> 'd"
  IsStatThreadSafe :: bool


text \<open>
  Edge::GetBindingImpl evaluates a binding and ends the process (Fatal) when the
  evaluation fails; Inl carries the message of the fatal error. The recursion bound of
  \<open>Edge_EvaluateVariable\<close> always suffices (lemma \<open>Edge_EvaluateVariable_total\<close>), so
  its result is taken out of the option.
\<close>

definition GetBindingImpl ::
  "EvalEnv \<Rightarrow> (node_id \<Rightarrow> Node) \<Rightarrow> Edge \<Rightarrow> string \<Rightarrow> EvalPhase \<Rightarrow> EscapeKind \<Rightarrow> string + string" where
  "GetBindingImpl env nodes e key phase escape =
     (case the (Edge_EvaluateVariable env nodes e [] key [] phase escape) of
        (ok, st) \<Rightarrow> if ok then Inr (out_append st) else Inl (eval_err st))"

definition GetBinding_edge :: "EvalEnv \<Rightarrow> (node_id \<Rightarrow> Node) \<Rightarrow> Edge \<Rightarrow> string \<Rightarrow> string + string" where
  "GetBinding_edge env nodes e key = GetBindingImpl env nodes e key kFinalScope kShellEscape"

definition GetUnescapedDepfile :: "EvalEnv \<Rightarrow> (node_id \<Rightarrow> Node) \<Rightarrow> Edge \<Rightarrow> string + string" where
  "GetUnescapedDepfile env nodes e = GetBindingImpl env nodes e ''depfile'' kFinalScope kDoNotEscape"

definition GetUnescapedRspfile :: "EvalEnv \<Rightarrow> (node_id \<Rightarrow> Node) \<Rightarrow> Edge \<Rightarrow> string + string" where
  "GetUnescapedRspfile env nodes e = GetBindingImpl env nodes e ''rspfile'' kFinalScope kDoNotEscape"





section \<open>Dependency scanner\<close>

record Deps =
  deps_mtime :: TimeStamp
  deps_nodes :: "node_id list"

text \<open>
  A function of the source that returns false on an error returns Failure here; an
  assertion that fails, or a call of Fatal, ends the process and is FatalError.
\<close>

datatype Outcome = Success | Failure | FatalError string

text \<open>
  The mutable state of a scan: the stores of nodes and edges with the number of slots in
  use (State::AddEdge and State::GetNode take the next slot), the error string that the
  functions of the scan share, and the stack of nodes of the recursive walk.
\<close>

record ScanState =
  node_at :: "node_id \<Rightarrow> Node"
  edge_at :: "edge_id \<Rightarrow> Edge"
  node_count :: nat
  edge_count :: nat
  scan_err :: string
  scan_stack :: "node_id list"

text \<open>
  What a scan reads: the disk, the build log (optional), the deps log, and the
  collaborators that are not among the sources (the depfile parser, path
  canonicalisation, the command hash and the size of the thread pool).
\<close>

record 'd ScanEnv =
  disk_interface :: "'d DiskInterface"
  disk_state :: 'd
  build_log_of :: "BuildLog option"
  deps_log_of :: "node_id \<Rightarrow> Deps option"
  eval_env :: EvalEnv
  DepfileParser_Parse :: "string \<Rightarrow> string + string \<times> string list"
  CanonicalizePath :: "string \<Rightarrow> string + string"
  HashCommand :: "string \<Rightarrow> 64 word"
  GetOptimalThreadPoolJobCount :: nat

definition upd_node :: "node_id \<Rightarrow> (Node \<Rightarrow> Node) \<Rightarrow> ScanState \<Rightarrow> ScanState" where
  "upd_node n f st = st\<lparr>node_at := (node_at st)(n := f (node_at st n))\<rparr>"

definition upd_edge :: "edge_id \<Rightarrow> (Edge \<Rightarrow> Edge) \<Rightarrow> ScanState \<Rightarrow> ScanState" where
  "upd_edge e f st = st\<lparr>edge_at := (edge_at st)(e := f (edge_at st e))\<rparr>"

subsection \<open>Stat\<close>

text \<open>The disk call of Node::Stat and Node::PrecomputeStat: LStat for a node with an
  in-edge, Stat otherwise.\<close>

definition stat_node :: "'d ScanEnv \<Rightarrow> Node \<Rightarrow> TimeStamp \<times> string" where
  "stat_node env nd =
     (if in_edge nd \<noteq> None
      then (case LStat (disk_interface env) (disk_state env) (path nd) of (t, is_dir, msg) \<Rightarrow> (t, msg))
      else Stat (disk_interface env) (disk_state env) (path nd))"

definition Node_Stat :: "'d ScanEnv \<Rightarrow> node_id \<Rightarrow> ScanState \<Rightarrow> bool \<times> ScanState" where
  "Node_Stat env n st =
     (case stat_node env (node_at st n) of (t, msg) \<Rightarrow>
        (t \<noteq> - 1,
         (upd_node n (\<lambda>nd. nd\<lparr>mtime := t\<rparr>) st)
           \<lparr>scan_err := (if t = - 1 then msg else scan_err st)\<rparr>))"

text \<open>Node::PrecomputeStat writes to an error string of its caller; it is returned.\<close>

definition PrecomputeStat :: "'d ScanEnv \<Rightarrow> node_id \<Rightarrow> ScanState \<Rightarrow> string \<times> ScanState" where
  "PrecomputeStat env n st =
     (case stat_node env (node_at st n) of (t, msg) \<Rightarrow>
        (if t = - 1 then msg else [], upd_node n (\<lambda>nd. nd\<lparr>precomputed_mtime := t\<rparr>) st))"

text \<open>
  Modelled from the spec: Node::StatIfNecessary and Node::ClearPrecomputedStat are defined
  in graph.h, which is not among the sources. StatIfNecessary consults the precomputed
  cache first; clearing the cache stores -1, the value of an mtime that is not known.
\<close>

definition StatIfNecessary :: "'d ScanEnv \<Rightarrow> node_id \<Rightarrow> ScanState \<Rightarrow> bool \<times> ScanState" where
  "StatIfNecessary env n st =
     (if status_known (node_at st n) then (True, st)
      else if 0 \<le> precomputed_mtime (node_at st n)
      then (True, upd_node n (\<lambda>nd. nd\<lparr>mtime := precomputed_mtime nd\<rparr>) st)
      else Node_Stat env n st)"

definition ClearPrecomputedStat :: "node_id \<Rightarrow> ScanState \<Rightarrow> ScanState" where
  "ClearPrecomputedStat n st = upd_node n (\<lambda>nd. nd\<lparr>precomputed_mtime := - 1\<rparr>) st"

subsection \<open>Dependency scan info\<close>

definition EvaluateCommand ::
  "EvalEnv \<Rightarrow> (node_id \<Rightarrow> Node) \<Rightarrow> Edge \<Rightarrow> string \<Rightarrow> bool \<Rightarrow> string \<Rightarrow> bool \<times> string \<times> string" where
  "EvaluateCommand env nodes e out incl_rsp_file err =
     (case the (Edge_EvaluateVariable env nodes e out ''command'' err kFinalScope kShellEscape) of
        (ok, st) \<Rightarrow>
          if \<not> ok then (False, out_append st, eval_err st)
          else if incl_rsp_file then
            (case the (Edge_EvaluateVariable env nodes e [] ''rspfile_content'' (eval_err st)
                         kFinalScope kShellEscape) of
               (ok2, st2) \<Rightarrow>
                 if \<not> ok2 then (False, out_append st, eval_err st2)
                 else if out_append st2 \<noteq> []
                 then (True, out_append st @ '';rspfile='' @ out_append st2, eval_err st2)
                 else (True, out_append st, eval_err st2))
          else (True, out_append st, eval_err st))"

text \<open>The lambda get_bool_var of PrecomputeDepScanInfo: success, the flag, the error string.\<close>

definition get_bool_var ::
  "EvalEnv \<Rightarrow> (node_id \<Rightarrow> Node) \<Rightarrow> Edge \<Rightarrow> string \<Rightarrow> EscapeKind \<Rightarrow> string \<Rightarrow> bool \<times> bool \<times> string" where
  "get_bool_var env nodes e var escape err =
     (case the (Edge_EvaluateVariable env nodes e [] var err kFinalScope escape) of
        (ok, st) \<Rightarrow> (ok, out_append st \<noteq> [], eval_err st))"

definition PrecomputeDepScanInfo ::
  "EvalEnv \<Rightarrow> (string \<Rightarrow> 64 word) \<Rightarrow> (node_id \<Rightarrow> Node) \<Rightarrow> Edge \<Rightarrow> string \<Rightarrow> bool \<times> Edge \<times> string" where
  "PrecomputeDepScanInfo env hash nodes e err =
     (if valid (dep_scan_info e) then (True, e, err)
      else
        (case get_bool_var env nodes e ''restat'' kShellEscape err of (ok1, v1, err1) \<Rightarrow>
         if \<not> ok1 then (False, e, err1) else
         let e1 = e\<lparr>dep_scan_info := (dep_scan_info e)\<lparr>restat := v1\<rparr>\<rparr> in
        (case get_bool_var env nodes e1 ''generator'' kShellEscape err1 of (ok2, v2, err2) \<Rightarrow>
         if \<not> ok2 then (False, e1, err2) else
         let e2 = e1\<lparr>dep_scan_info := (dep_scan_info e1)\<lparr>generator := v2\<rparr>\<rparr> in
        (case get_bool_var env nodes e2 ''deps'' kShellEscape err2 of (ok3, v3, err3) \<Rightarrow>
         if \<not> ok3 then (False, e2, err3) else
         let e3 = e2\<lparr>dep_scan_info := (dep_scan_info e2)\<lparr>deps := v3\<rparr>\<rparr> in
        (case get_bool_var env nodes e3 ''depfile'' kDoNotEscape err3 of (ok4, v4, err4) \<Rightarrow>
         if \<not> ok4 then (False, e3, err4) else
         let e4 = e3\<lparr>dep_scan_info := (dep_scan_info e3)\<lparr>depfile := v4\<rparr>\<rparr> in
        (case EvaluateCommand env nodes e4 [] True err4 of (ok5, command, err5) \<Rightarrow>
         if \<not> ok5 then (False, e4, err5) else
         (True,
          e4\<lparr>dep_scan_info := (dep_scan_info e4)\<lparr>command_hash := hash command, valid := True\<rparr>\<rparr>,
          err5)))))))"

text \<open>Edge::ComputeDepScanInfo: the info, computed unless cached, or a fatal error.\<close>

definition ComputeDepScanInfo ::
  "EvalEnv \<Rightarrow> (string \<Rightarrow> 64 word) \<Rightarrow> (node_id \<Rightarrow> Node) \<Rightarrow> Edge \<Rightarrow> string + Edge" where
  "ComputeDepScanInfo env hash nodes e =
     (case PrecomputeDepScanInfo env hash nodes e [] of
        (ok, e', err) \<Rightarrow> if ok then Inr e' else Inl err)"

subsection \<open>Implicit dep loader\<close>

text \<open>The null pointer that PreallocateSpace inserts; the loops of the loader overwrite it.\<close>

definition kNullNode :: node_id where
  "kNullNode = 0"

text \<open>
  Modelled from the spec: State::GetNode, State::AddEdge and Node::AddOutEdgeDepScan are
  not among the sources. GetNode returns the node of a path and creates it when there is
  none; AddEdge creates an edge of a rule with no inputs and no outputs;
  AddOutEdgeDepScan adds the edge to the node's dep_scan_out_edges.
\<close>

definition new_node :: "string \<Rightarrow> Node" where
  "new_node p = \<lparr>path = p, mtime = - 1, dirty = False, precomputed_mtime = - 1,
                 precomputed_dirtiness = False, in_edge = None, out_edges = [],
                 dep_scan_out_edges = []\<rparr>"

definition new_edge :: "Rule \<Rightarrow> Edge" where
  "new_edge r = \<lparr>rule = r, inputs = [], outputs = [], implicit_deps = 0, order_only_deps = 0,
                 implicit_outs = 0, explicit_outs = 0, unevaled_bindings = [], mark = Unvisited,
                 edge_precomputed_dirtiness = False, outputs_ready = False, deps_missing = False,
                 dep_scan_info = \<lparr>valid = False, restat = False, generator = False, deps = False,
                                   depfile = False, command_hash = 0\<rparr>,
                 phony_output = False\<rparr>"

definition GetNode :: "string \<Rightarrow> ScanState \<Rightarrow> node_id \<times> ScanState" where
  "GetNode p st =
     (case find (\<lambda>n. path (node_at st n) = p) [0..<node_count st] of
        Some n \<Rightarrow> (n, st)
      | None \<Rightarrow> (node_count st,
                 st\<lparr>node_at := (node_at st)(node_count st := new_node p),
                    node_count := Suc (node_count st)\<rparr>))"

definition AddEdge :: "Rule \<Rightarrow> ScanState \<Rightarrow> edge_id \<times> ScanState" where
  "AddEdge r st =
     (edge_count st,
      st\<lparr>edge_at := (edge_at st)(edge_count st := new_edge r),
         edge_count := Suc (edge_count st)\<rparr>)"

definition AddOutEdgeDepScan :: "node_id \<Rightarrow> edge_id \<Rightarrow> ScanState \<Rightarrow> ScanState" where
  "AddOutEdgeDepScan n e st =
     upd_node n (\<lambda>nd. nd\<lparr>dep_scan_out_edges := dep_scan_out_edges nd @ [e]\<rparr>) st"

definition PreallocateSpace :: "edge_id \<Rightarrow> nat \<Rightarrow> ScanState \<Rightarrow> nat \<times> ScanState" where
  "PreallocateSpace e count st =
     (let ed = edge_at st e; pos = length (inputs ed) - order_only_deps ed
      in (pos,
          upd_edge e (\<lambda>ed. ed\<lparr>inputs := take pos (inputs ed) @ replicate count kNullNode
                                            @ drop pos (inputs ed),
                               implicit_deps := implicit_deps ed + count\<rparr>) st))"

definition CreatePhonyInEdge :: "node_id \<Rightarrow> ScanState \<Rightarrow> ScanState" where
  "CreatePhonyInEdge n st =
     (if in_edge (node_at st n) \<noteq> None then st
      else
        (case AddEdge kPhonyRule st of (phony_edge, st1) \<Rightarrow>
           upd_edge phony_edge
             (\<lambda>ed. ed\<lparr>outputs := outputs ed @ [n], explicit_outs := Suc (explicit_outs ed),
                       outputs_ready := True\<rparr>)
             (upd_node n (\<lambda>nd. nd\<lparr>in_edge := Some phony_edge\<rparr>) st1)))"

text \<open>One step of the loops that fill the preallocated space: store the node at the
  position, register the edge with the node, give the node a phony in-edge if it has none.\<close>

definition add_implicit_dep :: "edge_id \<Rightarrow> nat \<Rightarrow> node_id \<Rightarrow> ScanState \<Rightarrow> ScanState" where
  "add_implicit_dep e pos n st =
     CreatePhonyInEdge n
       (AddOutEdgeDepScan n e (upd_edge e (\<lambda>ed. ed\<lparr>inputs := (inputs ed)[pos := n]\<rparr>) st))"

fun LoadDepsFromLog_nodes :: "edge_id \<Rightarrow> nat \<Rightarrow> node_id list \<Rightarrow> ScanState \<Rightarrow> ScanState" where
  "LoadDepsFromLog_nodes e pos [] st = st"
| "LoadDepsFromLog_nodes e pos (n # ns) st =
     LoadDepsFromLog_nodes e (Suc pos) ns (add_implicit_dep e pos n st)"

definition LoadDepsFromLog :: "'d ScanEnv \<Rightarrow> edge_id \<Rightarrow> ScanState \<Rightarrow> Outcome \<times> ScanState" where
  "LoadDepsFromLog env e st =
     (case outputs (edge_at st e) of
        [] \<Rightarrow> (FatalError ''outputs_[0]'', st)
      | output # _ \<Rightarrow>
          (case deps_log_of env output of
             None \<Rightarrow> (Failure, st)
           | Some dps \<Rightarrow>
               if mtime (node_at st output) > deps_mtime dps then (Failure, st)
               else
                 (case PreallocateSpace e (length (deps_nodes dps)) st of (pos, st1) \<Rightarrow>
                    (Success, LoadDepsFromLog_nodes e pos (deps_nodes dps) st1))))"

fun LoadDepFile_ins ::
  "'d ScanEnv \<Rightarrow> edge_id \<Rightarrow> nat \<Rightarrow> string list \<Rightarrow> ScanState \<Rightarrow> Outcome \<times> ScanState" where
  "LoadDepFile_ins env e pos [] st = (Success, st)"
| "LoadDepFile_ins env e pos (i # ins) st =
     (case CanonicalizePath env i of
        Inl msg \<Rightarrow> (Failure, st\<lparr>scan_err := msg\<rparr>)
      | Inr p \<Rightarrow>
          (case GetNode p st of (n, st1) \<Rightarrow>
             LoadDepFile_ins env e (Suc pos) ins (add_implicit_dep e pos n st1)))"

definition LoadDepFile :: "'d ScanEnv \<Rightarrow> edge_id \<Rightarrow> string \<Rightarrow> ScanState \<Rightarrow> Outcome \<times> ScanState" where
  "LoadDepFile env e pth st =
     (case ReadFile (disk_interface env) (disk_state env) pth of
        OtherError msg \<Rightarrow>
          (Failure, st\<lparr>scan_err := ''loading '' @ [CHR 0x27] @ pth @ [CHR 0x27] @ '': '' @ msg\<rparr>)
      | r \<Rightarrow>
          (case (case r of Okay c \<Rightarrow> (c, st) | _ \<Rightarrow> ([], st\<lparr>scan_err := []\<rparr>)) of
             (content, st1) \<Rightarrow>
               if content = [] then (Failure, st1)
               else
                 (case DepfileParser_Parse env content of
                    Inl depfile_err \<Rightarrow> (Failure, st1\<lparr>scan_err := pth @ '': '' @ depfile_err\<rparr>)
                  | Inr (out, ins) \<Rightarrow>
                      (case CanonicalizePath env out of
                         Inl msg \<Rightarrow> (Failure, st1\<lparr>scan_err := pth @ '': '' @ msg\<rparr>)
                       | Inr out_path \<Rightarrow>
                           (case outputs (edge_at st1 e) of
                              [] \<Rightarrow> (FatalError ''outputs_[0]'', st1)
                            | first_output # _ \<Rightarrow>
                                if path (node_at st1 first_output) \<noteq> out_path
                                then (Failure, st1)
                                else
                                  (case PreallocateSpace e (length ins) st1 of (pos, st2) \<Rightarrow>
                                     LoadDepFile_ins env e pos ins st2))))))"

text \<open>
  ImplicitDepLoader::LoadDeps. UsesDepsLog is the first accessor of the scan info that a
  visit of the edge calls, so the info is computed here unless it is cached.
\<close>

definition LoadDeps :: "'d ScanEnv \<Rightarrow> edge_id \<Rightarrow> ScanState \<Rightarrow> Outcome \<times> ScanState" where
  "LoadDeps env e st =
     (case ComputeDepScanInfo (eval_env env) (HashCommand env) (node_at st) (edge_at st e) of
        Inl fatal \<Rightarrow> (FatalError fatal, st)
      | Inr ed \<Rightarrow>
          let st1 = upd_edge e (\<lambda>_. ed) st in
          if UsesDepsLog ed then LoadDepsFromLog env e st1
          else if UsesDepfile ed then
            (case GetUnescapedDepfile (eval_env env) (node_at st1) ed of
               Inl fatal \<Rightarrow> (FatalError fatal, st1)
             | Inr depfile_path \<Rightarrow>
                 if depfile_path = [] then (FatalError ''assert(!depfile.empty())'', st1)
                 else LoadDepFile env e depfile_path st1)
          else (Success, st1))"

subsection \<open>Cycle check\<close>

definition maybe_phonycycle_diagnostic :: "Edge \<Rightarrow> bool" where
  "maybe_phonycycle_diagnostic e =
     (is_phony e \<and> length (outputs e) = 1 \<and> implicit_outs e = 0 \<and>
      implicit_deps e = 0 \<and> order_only_deps e = 0)"

text \<open>The search loop of VerifyDAG: the index of the first node of the stack whose in-edge
  is the edge, or the length of the stack when there is none.\<close>

fun find_start :: "(node_id \<Rightarrow> Node) \<Rightarrow> edge_id \<Rightarrow> node_id list \<Rightarrow> nat" where
  "find_start nodes e [] = 0"
| "find_start nodes e (n # ns) =
     (if in_edge (nodes n) = Some e then 0 else Suc (find_start nodes e ns))"

text \<open>The text of the error: the paths from the start of the cycle, then the start again.\<close>

definition cycle_message :: "(node_id \<Rightarrow> Node) \<Rightarrow> node_id list \<Rightarrow> string" where
  "cycle_message nodes cyc =
     ''dependency cycle: '' @ concat (map (\<lambda>n. path (nodes n) @ '' -> '') cyc)
       @ path (nodes (hd cyc))"

definition VerifyDAG :: "node_id \<Rightarrow> ScanState \<Rightarrow> Outcome \<times> ScanState" where
  "VerifyDAG node st =
     (case in_edge (node_at st node) of
        None \<Rightarrow> (FatalError ''assert(edge != NULL)'', st)
      | Some e \<Rightarrow>
          if mark (edge_at st e) \<noteq> VisitInStack then (Success, st)
          else
            let start = find_start (node_at st) e (scan_stack st) in
            if start = length (scan_stack st)
            then (FatalError ''assert(start != stack->end())'', st)
            else
              let stack1 = (scan_stack st)[start := node];
                  msg = cycle_message (node_at st) (drop start stack1)
              in (Failure,
                  st\<lparr>scan_stack := stack1,
                     scan_err := (if Suc start = length stack1
                                    \<and> maybe_phonycycle_diagnostic (edge_at st e)
                                  then msg @ '' [-w phonycycle=err]'' else msg)\<rparr>))"

subsection \<open>The recursive walk\<close>

text \<open>
  Modelled from the spec: Edge::is_order_only, Node::MarkDirty and Node::set_dirty are in
  graph.h. The order-only inputs are the last order_only_deps inputs of an edge.
\<close>

definition is_order_only :: "Edge \<Rightarrow> nat \<Rightarrow> bool" where
  "is_order_only e index = (length (inputs e) - order_only_deps e \<le> index)"

definition MarkDirty :: "node_id \<Rightarrow> ScanState \<Rightarrow> ScanState" where
  "MarkDirty n st = upd_node n (\<lambda>nd. nd\<lparr>dirty := True\<rparr>) st"

definition set_dirty :: "node_id \<Rightarrow> bool \<Rightarrow> ScanState \<Rightarrow> ScanState" where
  "set_dirty n b st = upd_node n (\<lambda>nd. nd\<lparr>dirty := b\<rparr>) st"

text \<open>
  DependencyScan::RecomputeOutputsDirty. It always returns true; the second component is
  the value it leaves in outputs_dirty.
\<close>

definition RecomputeOutputsDirty ::
  "BuildLog option \<Rightarrow> ScanState \<Rightarrow> edge_id \<Rightarrow> node_id option \<Rightarrow> bool \<Rightarrow> bool \<times> bool" where
  "RecomputeOutputsDirty build_log st e most_recent_input outputs_dirty =
     (let edge = edge_at st e; cmd_hash = GetCommandHash edge
      in (True,
          if list_ex (\<lambda>o_id. fst (RecomputeOutputDirty build_log edge
                                    (map_option (node_at st) most_recent_input) cmd_hash
                                    (node_at st o_id)))
                     (outputs edge)
          then True else outputs_dirty))"

text \<open>RecomputeNodeDirty on a node without an in-edge.\<close>

definition RecomputeLeaf :: "'d ScanEnv \<Rightarrow> node_id \<Rightarrow> ScanState \<Rightarrow> Outcome \<times> ScanState" where
  "RecomputeLeaf env node st =
     (if status_known (node_at st node) then (Success, st)
      else
        (case StatIfNecessary env node st of
           (ok, st1) \<Rightarrow>
             if \<not> ok then (Failure, st1)
             else (Success, set_dirty node (\<not> exists_node (node_at st1 node)) st1)))"

fun StatOutputs :: "'d ScanEnv \<Rightarrow> node_id list \<Rightarrow> ScanState \<Rightarrow> bool \<times> ScanState" where
  "StatOutputs env [] st = (True, st)"
| "StatOutputs env (n # ns) st =
     (case StatIfNecessary env n st of
        (ok, st1) \<Rightarrow> if \<not> ok then (False, st1) else StatOutputs env ns st1)"

text \<open>
  RecomputeNodeDirty from the temporary mark up to the loading of the implicit deps:
  BeginVisit marks the edge and pushes the node, EnterEdge then loads the mtimes of the
  outputs and the implicit deps. The result of EnterEdge carries the local variable dirty.
\<close>

definition BeginVisit :: "node_id \<Rightarrow> edge_id \<Rightarrow> ScanState \<Rightarrow> ScanState" where
  "BeginVisit node e st =
     (let st1 = upd_edge e (\<lambda>ed. ed\<lparr>mark := VisitInStack\<rparr>) st;
          st2 = st1\<lparr>scan_stack := scan_stack st1 @ [node]\<rparr>
      in upd_edge e (\<lambda>ed. ed\<lparr>outputs_ready := True, deps_missing := False\<rparr>) st2)"

definition EnterEdge ::
  "'d ScanEnv \<Rightarrow> node_id \<Rightarrow> edge_id \<Rightarrow> ScanState \<Rightarrow> Outcome \<times> bool \<times> ScanState" where
  "EnterEdge env node e st =
     (let st3 = BeginVisit node e st
      in case StatOutputs env (outputs (edge_at st3 e)) st3 of
           (ok, st4) \<Rightarrow>
             if \<not> ok then (Failure, False, st4)
             else
               (case LoadDeps env e st4 of
                  (Success, st5) \<Rightarrow> (Success, False, st5)
                | (Failure, st5) \<Rightarrow>
                    if scan_err st5 \<noteq> [] then (Failure, False, st5)
                    else (Success, True, upd_edge e (\<lambda>ed. ed\<lparr>deps_missing := True\<rparr>) st5)
                | (FatalError fatal, st5) \<Rightarrow> (FatalError fatal, False, st5)))"

text \<open>The body of the loop over the inputs after the recursive call for input i at
  position idx; acc holds the local variables dirty and most_recent_input.\<close>

definition AfterInput ::
  "edge_id \<Rightarrow> node_id \<Rightarrow> nat \<Rightarrow> bool \<times> node_id option \<Rightarrow> ScanState
     \<Rightarrow> (bool \<times> node_id option) \<times> ScanState" where
  "AfterInput e i idx acc st =
     (case acc of (is_dirty, most_recent_input) \<Rightarrow>
        let st1 = (case in_edge (node_at st i) of
                     Some ie \<Rightarrow>
                       if \<not> outputs_ready (edge_at st ie)
                       then upd_edge e (\<lambda>ed. ed\<lparr>outputs_ready := False\<rparr>) st else st
                   | None \<Rightarrow> st)
        in if \<not> is_order_only (edge_at st1 e) idx then
             (if dirty (node_at st1 i) then ((True, most_recent_input), st1)
              else
                (case most_recent_input of
                   None \<Rightarrow> ((is_dirty, Some i), st1)
                 | Some m \<Rightarrow>
                     if mtime (node_at st1 i) > mtime (node_at st1 m)
                     then ((is_dirty, Some i), st1)
                     else ((is_dirty, most_recent_input), st1)))
           else ((is_dirty, most_recent_input), st1))"

text \<open>RecomputeNodeDirty after the loop over the inputs.\<close>

definition FinishVisit ::
  "'d ScanEnv \<Rightarrow> node_id \<Rightarrow> edge_id \<Rightarrow> bool \<Rightarrow> node_id option \<Rightarrow> ScanState \<Rightarrow> Outcome \<times> ScanState" where
  "FinishVisit env node e is_dirty most_recent_input st =
     (case (if \<not> is_dirty
            then RecomputeOutputsDirty (build_log_of env) st e most_recent_input is_dirty
            else (True, is_dirty)) of
        (ok, is_dirty1) \<Rightarrow>
          if \<not> ok then (Failure, st)
          else
            let st1 = (if is_dirty1 then fold MarkDirty (outputs (edge_at st e)) st else st);
                st2 = (if is_dirty1 \<and> \<not> (is_phony (edge_at st1 e) \<and> inputs (edge_at st1 e) = [])
                       then upd_edge e (\<lambda>ed. ed\<lparr>outputs_ready := False\<rparr>) st1 else st1);
                st3 = upd_edge e (\<lambda>ed. ed\<lparr>mark := VisitDone\<rparr>) st2
            in if scan_stack st3 \<noteq> [] \<and> last (scan_stack st3) = node
               then (Success, st3\<lparr>scan_stack := butlast (scan_stack st3)\<rparr>)
               else (FatalError ''assert(stack->back() == node)'', st3))"

text \<open>
  DependencyScan::RecomputeNodeDirty and its loop over the inputs of the edge. The loop
  runs over the inputs as they are after LoadDeps: a visit that changed the inputs of an
  edge on the stack would need to enter that edge again, which VerifyDAG refuses. The first
  argument bounds the depth of the recursion; None means the bound was too small.
\<close>

fun RecomputeNodeDirty ::
    "nat \<Rightarrow> 'd ScanEnv \<Rightarrow> node_id \<Rightarrow> ScanState \<Rightarrow> (Outcome \<times> ScanState) option"
  and RecomputeInputs ::
    "nat \<Rightarrow> 'd ScanEnv \<Rightarrow> edge_id \<Rightarrow> node_id list \<Rightarrow> nat \<Rightarrow> bool \<times> node_id option \<Rightarrow> ScanState
       \<Rightarrow> (Outcome \<times> (bool \<times> node_id option) \<times> ScanState) option"
  where
  "RecomputeNodeDirty 0 env node st = None"
| "RecomputeNodeDirty (Suc fuel) env node st =
     (case in_edge (node_at st node) of
        None \<Rightarrow> Some (RecomputeLeaf env node st)
      | Some e \<Rightarrow>
          if mark (edge_at st e) = VisitDone then Some (Success, st)
          else
            (case VerifyDAG node st of
               (out1, st1) \<Rightarrow>
                 if out1 \<noteq> Success then Some (out1, st1)
                 else
                   (case EnterEdge env node e st1 of
                      (out2, is_dirty, st2) \<Rightarrow>
                        if out2 \<noteq> Success then Some (out2, st2)
                        else
                          (case RecomputeInputs fuel env e (inputs (edge_at st2 e)) 0
                                  (is_dirty, None) st2 of
                             None \<Rightarrow> None
                           | Some (out3, acc, st3) \<Rightarrow>
                               if out3 \<noteq> Success then Some (out3, st3)
                               else Some (FinishVisit env node e (fst acc) (snd acc) st3)))))"
| "RecomputeInputs fuel env e [] idx acc st = Some (Success, acc, st)"
| "RecomputeInputs fuel env e (i # ins) idx acc st =
     (case RecomputeNodeDirty fuel env i st of
        None \<Rightarrow> None
      | Some (out, st1) \<Rightarrow>
          if out \<noteq> Success then Some (out, acc, st1)
          else
            (case AfterInput e i idx acc st1 of
               (acc1, st2) \<Rightarrow> RecomputeInputs fuel env e ins (Suc idx) acc1 st2))"

subsection \<open>The scan\<close>

text \<open>
  DependencyScan::CollectPrecomputeLists with its two loops; the lists of collected nodes
  and edges are threaded with the state. The first argument bounds the depth of the
  recursion.
\<close>

fun CollectPrecomputeLists ::
    "nat \<Rightarrow> (node_id \<Rightarrow> Deps option) \<Rightarrow> node_id \<Rightarrow> node_id list \<times> edge_id list \<times> ScanState
       \<Rightarrow> (node_id list \<times> edge_id list \<times> ScanState) option"
  and CollectPrecomputeLists_each ::
    "nat \<Rightarrow> (node_id \<Rightarrow> Deps option) \<Rightarrow> node_id list \<Rightarrow> node_id list \<times> edge_id list \<times> ScanState
       \<Rightarrow> (node_id list \<times> edge_id list \<times> ScanState) option"
  where
  "CollectPrecomputeLists 0 dl node c = None"
| "CollectPrecomputeLists (Suc fuel) dl node c =
     (case c of (ns, es, st) \<Rightarrow>
        if precomputed_dirtiness (node_at st node) then Some c
        else
          let st1 = upd_node node (\<lambda>nd. nd\<lparr>precomputed_dirtiness := True\<rparr>) st;
              ns1 = ns @ [node]
          in
          (case (case in_edge (node_at st1 node) of
                   None \<Rightarrow> Some (ns1, es, st1)
                 | Some e \<Rightarrow>
                     if \<not> edge_precomputed_dirtiness (edge_at st1 e) then
                       CollectPrecomputeLists_each fuel dl (inputs (edge_at st1 e))
                         (ns1, es @ [e],
                          upd_edge e (\<lambda>ed. ed\<lparr>edge_precomputed_dirtiness := True\<rparr>) st1)
                     else Some (ns1, es, st1)) of
             None \<Rightarrow> None
           | Some c1 \<Rightarrow>
               (case dl node of
                  None \<Rightarrow> Some c1
                | Some dps \<Rightarrow> CollectPrecomputeLists_each fuel dl (deps_nodes dps) c1)))"
| "CollectPrecomputeLists_each fuel dl [] c = Some c"
| "CollectPrecomputeLists_each fuel dl (n # ns) c =
     (if \<not> precomputed_dirtiness (node_at (snd (snd c)) n) then
        (case CollectPrecomputeLists fuel dl n c of
           None \<Rightarrow> None
         | Some c1 \<Rightarrow> CollectPrecomputeLists_each fuel dl ns c1)
      else CollectPrecomputeLists_each fuel dl ns c)"

fun CollectAll ::
  "nat \<Rightarrow> (node_id \<Rightarrow> Deps option) \<Rightarrow> node_id list \<Rightarrow> node_id list \<times> edge_id list \<times> ScanState
     \<Rightarrow> (node_id list \<times> edge_id list \<times> ScanState) option" where
  "CollectAll fuel dl [] c = Some c"
| "CollectAll fuel dl (n # ns) c =
     (case CollectPrecomputeLists fuel dl n c of
        None \<Rightarrow> None
      | Some c1 \<Rightarrow> CollectAll fuel dl ns c1)"

text \<open>
  Modelled from the spec: ParallelMap and PropagateError are in parallel_map.h. The
  workers' error strings are collected and the first one that is not empty is surfaced.
  The workers touch disjoint nodes and edges, so they are run one after the other.
\<close>

definition PropagateError :: "string list \<Rightarrow> ScanState \<Rightarrow> bool \<times> ScanState" where
  "PropagateError errs st =
     (case find (\<lambda>s. s \<noteq> []) errs of
        None \<Rightarrow> (True, st)
      | Some s \<Rightarrow> (False, st\<lparr>scan_err := s\<rparr>))"

fun PrecomputeStats :: "'d ScanEnv \<Rightarrow> node_id list \<Rightarrow> ScanState \<Rightarrow> string list \<times> ScanState" where
  "PrecomputeStats env [] st = ([], st)"
| "PrecomputeStats env (n # ns) st =
     (case PrecomputeStat env n st of
        (msg, st1) \<Rightarrow> (case PrecomputeStats env ns st1 of (msgs, st2) \<Rightarrow> (msg # msgs, st2)))"

fun PrecomputeEdgeInfos :: "'d ScanEnv \<Rightarrow> edge_id list \<Rightarrow> ScanState \<Rightarrow> string list \<times> ScanState" where
  "PrecomputeEdgeInfos env [] st = ([], st)"
| "PrecomputeEdgeInfos env (e # es) st =
     (case PrecomputeDepScanInfo (eval_env env) (HashCommand env) (node_at st) (edge_at st e) [] of
        (ok, ed, msg) \<Rightarrow>
          (case PrecomputeEdgeInfos env es (upd_edge e (\<lambda>_. ed) st) of
             (msgs, st2) \<Rightarrow> (msg # msgs, st2)))"

definition PrecomputeNodesDirty ::
  "'d ScanEnv \<Rightarrow> node_id list \<Rightarrow> edge_id list \<Rightarrow> ScanState \<Rightarrow> bool \<times> ScanState" where
  "PrecomputeNodesDirty env all_nodes all_edges st =
     (case (if IsStatThreadSafe (disk_interface env) \<and> 1 < GetOptimalThreadPoolJobCount env
            then (case PrecomputeStats env all_nodes st of (msgs, st1) \<Rightarrow> PropagateError msgs st1)
            else (True, st)) of
        (ok, st1) \<Rightarrow>
          if \<not> ok then (False, st1)
          else (case PrecomputeEdgeInfos env all_edges st1 of
                  (msgs, st2) \<Rightarrow> PropagateError msgs st2))"

text \<open>The main pass: the loop over the initial nodes, each started on an empty stack.\<close>

fun MainPass :: "nat \<Rightarrow> 'd ScanEnv \<Rightarrow> node_id list \<Rightarrow> ScanState \<Rightarrow> (Outcome \<times> ScanState) option" where
  "MainPass fuel env [] st = Some (Success, st)"
| "MainPass fuel env (n # ns) st =
     (case RecomputeNodeDirty fuel env n (st\<lparr>scan_stack := []\<rparr>) of
        None \<Rightarrow> None
      | Some (out, st1) \<Rightarrow>
          if out \<noteq> Success then Some (out, st1) else MainPass fuel env ns st1)"

text \<open>
  DependencyScan::RecomputeNodesDirty. A fatal error ends the process before the
  precomputed mtimes are cleared.
\<close>

definition RecomputeNodesDirty ::
  "nat \<Rightarrow> 'd ScanEnv \<Rightarrow> node_id list \<Rightarrow> ScanState \<Rightarrow> (Outcome \<times> ScanState) option" where
  "RecomputeNodesDirty fuel env initial_nodes st =
     (case CollectAll fuel (deps_log_of env) initial_nodes ([], [], st) of
        None \<Rightarrow> None
      | Some (all_nodes, all_edges, st1) \<Rightarrow>
          (case PrecomputeNodesDirty env all_nodes all_edges st1 of
             (ok, st2) \<Rightarrow>
               (case (if ok then MainPass fuel env initial_nodes (st2\<lparr>scan_stack := []\<rparr>)
                      else Some (Failure, st2)) of
                  None \<Rightarrow> None
                | Some (out, st3) \<Rightarrow>
                    if out \<noteq> Success \<and> out \<noteq> Failure then Some (out, st3)
                    else Some (out, fold ClearPrecomputedStat all_nodes st3))))"

section \<open>Relations between the states of a scan\<close>

text \<open>Two states of a scan that differ in what is known about the nodes only.\<close>

definition same_graph :: "ScanState \<Rightarrow> ScanState \<Rightarrow> bool" where
  "same_graph st st' =
     (edge_at st' = edge_at st \<and> edge_count st' = edge_count st \<and> node_count st' = node_count st
      \<and> scan_stack st' = scan_stack st
      \<and> (\<forall>n. in_edge (node_at st' n) = in_edge (node_at st n)
             \<and> path (node_at st' n) = path (node_at st n)))"

text \<open>The value of the local variable dirty of RecomputeNodeDirty after the call of
  RecomputeOutputsDirty, given its value after the loop over the inputs.\<close>

definition final_dirty :: "'d ScanEnv \<Rightarrow> edge_id \<Rightarrow> bool \<Rightarrow> node_id option \<Rightarrow> ScanState \<Rightarrow> bool" where
  "final_dirty env e is_dirty most_recent_input st =
     (is_dirty \<or> snd (RecomputeOutputsDirty (build_log_of env) st e most_recent_input False))"





text \<open>
  An edge after the loading of its implicit deps: LoadDeps writes the inputs, the count of
  implicit deps and the scan info, and nothing else.
\<close>

definition loaded :: "Edge \<Rightarrow> Edge \<Rightarrow> bool" where
  "loaded ed ed' =
     (rule ed' = rule ed \<and> outputs ed' = outputs ed \<and> order_only_deps ed' = order_only_deps ed
      \<and> implicit_outs ed' = implicit_outs ed \<and> explicit_outs ed' = explicit_outs ed
      \<and> unevaled_bindings ed' = unevaled_bindings ed \<and> mark ed' = mark ed
      \<and> edge_precomputed_dirtiness ed' = edge_precomputed_dirtiness ed
      \<and> outputs_ready ed' = outputs_ready ed \<and> deps_missing ed' = deps_missing ed
      \<and> phony_output ed' = phony_output ed)"

text \<open>
  A step of the scan that works on the edge e: the other edges that existed before are as
  they were, the edge itself (when it is an edge of the graph) is changed by the loading
  of its deps at most, and the stack is as it was.
\<close>

definition load_step :: "edge_id \<Rightarrow> ScanState \<Rightarrow> ScanState \<Rightarrow> bool" where
  "load_step e st st' =
     (edge_count st \<le> edge_count st'
      \<and> (\<forall>x < edge_count st. x \<noteq> e \<longrightarrow> edge_at st' x = edge_at st x)
      \<and> (e < edge_count st \<longrightarrow> loaded (edge_at st e) (edge_at st' e))
      \<and> scan_stack st' = scan_stack st)"

text \<open>
  A visit leaves alone the edges it finds visited: every edge that existed before with a
  mark other than Unvisited is as it was.
\<close>

definition visited_kept :: "ScanState \<Rightarrow> ScanState \<Rightarrow> bool" where
  "visited_kept st st' =
     (edge_count st \<le> edge_count st'
      \<and> (\<forall>x < edge_count st. mark (edge_at st x) \<noteq> Unvisited \<longrightarrow> edge_at st' x = edge_at st x))"

text \<open>
  The dirty flags that the loop over the inputs of an edge reads: for each input, the flag
  of the input in the state that its visit has left.
\<close>

fun inputs_dirty :: "nat \<Rightarrow> 'd ScanEnv \<Rightarrow> edge_id \<Rightarrow> node_id list \<Rightarrow> ScanState \<Rightarrow> bool list" where
  "inputs_dirty fuel env e [] st = []"
| "inputs_dirty fuel env e (i # ins) st =
     (case RecomputeNodeDirty fuel env i st of
        Some (Success, st1) \<Rightarrow>
          dirty (node_at st1 i) # inputs_dirty fuel env e ins (snd (AfterInput e i 0 (False, None) st1))
      | _ \<Rightarrow> [])"

section \<open>Build plan\<close>

datatype Want = kWantNothing | kWantToStart | kWantToFinish

datatype EdgeResult = kEdgeFailed | kEdgeSucceeded

text \<open>
  Modelled from the spec: the Pool class is not among the sources. The state of all pools
  has some type \<open>'p\<close>, and each operation is applied to the pool of the given edge.
\<close>

record 'p PoolOps =
  ShouldDelayEdge :: "'p \<Rightarrow> edge_id \<Rightarrow> bool"
  DelayEdge :: "'p \<Rightarrow> edge_id \<Rightarrow> 'p"
  RetrieveReadyEdges :: "'p \<Rightarrow> edge_id \<Rightarrow> edge_id list \<Rightarrow> 'p \<times> edge_id list"
  Pool_EdgeScheduled :: "'p \<Rightarrow> edge_id \<Rightarrow> 'p"
  Pool_EdgeFinished :: "'p \<Rightarrow> edge_id \<Rightarrow> 'p"

text \<open>
  The Plan object (want_, ready_, the two counters) together with what its methods change
  besides: the pools, the graph and the error string. The last two fields are history
  variables that the source does not have; no test of the model reads them. They record
  the transitions of the entries of want_, see \<open>set_want\<close>. The counters are ints in
  the source and are modelled as integers.
\<close>

record 'p PlanWorld =
  want :: "edge_id \<Rightarrow> Want option"
  ready :: "edge_id list"
  command_edges :: int
  wanted_edges :: int
  pool_state :: 'p
  graph :: ScanState
  plan_err :: string
  promotions :: "bool list"
  demotions :: "bool list"



text \<open>
  Every assignment to an entry of want_ goes through \<open>set_want\<close>, which compares the
  old value of the entry with the new one: a change from kWantNothing to kWantToStart is
  recorded as a promotion, a change from kWantToStart or kWantToFinish to kWantNothing as
  a demotion, each with the is_phony flag of the edge. The record depends on the values
  of the entry alone, not on the place of the assignment or on the counters.
\<close>

definition set_want :: "edge_id \<Rightarrow> Want \<Rightarrow> 'p PlanWorld \<Rightarrow> 'p PlanWorld" where
  "set_want e v w =
     w\<lparr>want := (want w)(e \<mapsto> v),
       promotions :=
         (if want w e = Some kWantNothing \<and> v = kWantToStart
          then promotions w @ [is_phony (edge_at (graph w) e)] else promotions w),
       demotions :=
         (if (want w e = Some kWantToStart \<or> want w e = Some kWantToFinish) \<and> v = kWantNothing
          then demotions w @ [is_phony (edge_at (graph w) e)] else demotions w)\<rparr>"

text \<open>The set ready_ is ordered by edge id; inserting an edge that is present changes nothing.\<close>

definition ready_insert :: "edge_id \<Rightarrow> edge_id list \<Rightarrow> edge_id list" where
  "ready_insert e xs = (if e \<in> set xs then xs else insort e xs)"

definition AllInputsReady :: "ScanState \<Rightarrow> edge_id \<Rightarrow> bool" where
  "AllInputsReady g e =
     list_all (\<lambda>i. case in_edge (node_at g i) of
                      None \<Rightarrow> True
                    | Some ie \<Rightarrow> outputs_ready (edge_at g ie))
              (inputs (edge_at g e))"

text \<open>Node::GetOutEdges: the out-edges of the manifest sorted by edge id, then the
  out-edges found by the dep scan in their order.\<close>

definition GetOutEdges :: "Node \<Rightarrow> edge_id list" where
  "GetOutEdges n = sort (out_edges n) @ dep_scan_out_edges n"


definition ScheduleWork :: "'p PoolOps \<Rightarrow> edge_id \<Rightarrow> 'p PlanWorld \<Rightarrow> Outcome \<times> 'p PlanWorld" where
  "ScheduleWork po e w =
     (if want w e = Some kWantToFinish then (Success, w)
      else if want w e \<noteq> Some kWantToStart
      then (FatalError ''assert(want_e->second == kWantToStart)'', w)
      else
        let w1 = set_want e kWantToFinish w in
        if ShouldDelayEdge po (pool_state w1) e then
          (case RetrieveReadyEdges po (DelayEdge po (pool_state w1) e) e (ready w1) of
             (p, r) \<Rightarrow> (Success, w1\<lparr>pool_state := p, ready := r\<rparr>))
        else
          (Success, w1\<lparr>pool_state := Pool_EdgeScheduled po (pool_state w1) e,
                       ready := ready_insert e (ready w1)\<rparr>))"





text \<open>
  Plan::EdgeFinished up to the loop over the outputs: release the pool slot of a directly
  wanted edge, admit delayed edges, and for a successful edge decrement wanted_edges if it
  was directly wanted, erase it from want_ and set outputs_ready. The boolean says whether
  the loop over the outputs follows.
\<close>

definition EdgeFinished_begin ::
  "'p PoolOps \<Rightarrow> edge_id \<Rightarrow> EdgeResult \<Rightarrow> 'p PlanWorld \<Rightarrow> Outcome \<times> bool \<times> 'p PlanWorld" where
  "EdgeFinished_begin po edge result w =
     (case want w edge of
        None \<Rightarrow> (FatalError ''assert(e != want_.end())'', False, w)
      | Some wnt \<Rightarrow>
          let directly_wanted = (wnt \<noteq> kWantNothing);
              p1 = (if directly_wanted then Pool_EdgeFinished po (pool_state w) edge
                    else pool_state w)
          in
          (case RetrieveReadyEdges po p1 edge (ready w) of
             (p2, r2) \<Rightarrow>
               let w1 = w\<lparr>pool_state := p2, ready := r2\<rparr> in
               if result \<noteq> kEdgeSucceeded then (Success, False, w1)
               else
                 let w2 = (if directly_wanted then w1\<lparr>wanted_edges := wanted_edges w1 - 1\<rparr>
                           else w1)
                 in (Success, True,
                     w2\<lparr>want := (want w2)(edge := None),
                        graph := upd_edge edge (\<lambda>ed. ed\<lparr>outputs_ready := True\<rparr>) (graph w2)\<rparr>)))"

text \<open>
  Plan::EdgeFinished, Plan::NodeFinished and the loops of both. The first argument bounds
  the depth of the recursion.
\<close>

fun EdgeFinished ::
    "nat \<Rightarrow> 'p PoolOps \<Rightarrow> edge_id \<Rightarrow> EdgeResult \<Rightarrow> 'p PlanWorld \<Rightarrow> (Outcome \<times> 'p PlanWorld) option"
  and NodesFinished ::
    "nat \<Rightarrow> 'p PoolOps \<Rightarrow> node_id list \<Rightarrow> 'p PlanWorld \<Rightarrow> (Outcome \<times> 'p PlanWorld) option"
  and NodeFinished_edges ::
    "nat \<Rightarrow> 'p PoolOps \<Rightarrow> edge_id list \<Rightarrow> 'p PlanWorld \<Rightarrow> (Outcome \<times> 'p PlanWorld) option"
  where
  "EdgeFinished 0 po edge result w = None"
| "EdgeFinished (Suc fuel) po edge result w =
     (case EdgeFinished_begin po edge result w of
        (out, go_on, w3) \<Rightarrow>
          if go_on then NodesFinished fuel po (outputs (edge_at (graph w3) edge)) w3
          else Some (out, w3))"
| "NodesFinished fuel po [] w = Some (Success, w)"
| "NodesFinished fuel po (n # ns) w =
     (case NodeFinished_edges fuel po (GetOutEdges (node_at (graph w) n)) w of
        None \<Rightarrow> None
      | Some (out, w1) \<Rightarrow>
          if out = Success then NodesFinished fuel po ns w1 else Some (out, w1))"
| "NodeFinished_edges fuel po [] w = Some (Success, w)"
| "NodeFinished_edges fuel po (oe # oes) w =
     (if want w oe \<noteq> None \<and> AllInputsReady (graph w) oe then
        (case (if want w oe \<noteq> Some kWantNothing then Some (ScheduleWork po oe w)
               else EdgeFinished fuel po oe kEdgeSucceeded w) of
           None \<Rightarrow> None
         | Some (out, w1) \<Rightarrow>
             if out = Success then NodeFinished_edges fuel po oes w1 else Some (out, w1))
      else NodeFinished_edges fuel po oes w)"

definition NodeFinished ::
  "nat \<Rightarrow> 'p PoolOps \<Rightarrow> node_id \<Rightarrow> 'p PlanWorld \<Rightarrow> (Outcome \<times> 'p PlanWorld) option" where
  "NodeFinished fuel po node w = NodeFinished_edges fuel po (GetOutEdges (node_at (graph w) node)) w"







section \<open>Relations between the states of a plan\<close>







section \<open>Concrete inputs\<close>

text \<open>Small graphs and logs on which the theorems below are instantiated.\<close>

definition no_info :: DepScanInfo where
  "no_info = \<lparr>valid = True, restat = False, generator = False, deps = False,
              depfile = False, command_hash = 7\<rparr>"

definition cat_rule :: Rule where
  "cat_rule = \<lparr>rule_name = ''cat'', bindings = [(''command'', [Lit ''cat '', Var ''in''])]\<rparr>"

definition ex_node :: "string \<Rightarrow> TimeStamp \<Rightarrow> edge_id option \<Rightarrow> Node" where
  "ex_node p t ie = \<lparr>path = p, mtime = t, dirty = False, precomputed_mtime = - 1,
                       precomputed_dirtiness = False, in_edge = ie, out_edges = [],
                       dep_scan_out_edges = []\<rparr>"

definition ex_edge :: "Rule \<Rightarrow> node_id list \<Rightarrow> node_id list \<Rightarrow> DepScanInfo \<Rightarrow> Edge" where
  "ex_edge r ins outs info = \<lparr>rule = r, inputs = ins, outputs = outs, implicit_deps = 0,
       order_only_deps = 0, implicit_outs = 0, explicit_outs = length outs,
       unevaled_bindings = [], mark = Unvisited, edge_precomputed_dirtiness = False,
       outputs_ready = False, deps_missing = False, dep_scan_info = info,
       phony_output = False\<rparr>"

definition ex_log :: "string \<Rightarrow> 64 word \<Rightarrow> TimeStamp \<Rightarrow> BuildLog" where
  "ex_log p h t = (\<lambda>q. if q = p then Some \<lparr>entry_command_hash = h, entry_mtime = t\<rparr> else None)"

definition wide_rule :: Rule where
  "wide_rule = \<lparr>rule_name = ''wide'', bindings =
     [(''command'', replicate 15 (Var ''description'') @ [Var ''depfile'']),
      (''description'', [Lit ''x'']),
      (''depfile'', [Var ''depfile''])]\<rparr>"

definition long_rule :: Rule where
  "long_rule = \<lparr>rule_name = ''long'', bindings =
     [(''command'', replicate 16 (Var ''description'')),
      (''description'', [Lit ''x''])]\<rparr>"

definition twice_rule :: Rule where
  "twice_rule = \<lparr>rule_name = ''twice'', bindings =
     [(''command'', [Var ''description'', Lit '' '', Var ''description'']),
      (''description'', [Lit ''x''])]\<rparr>"

definition ex_eval_env :: EvalEnv where
  "ex_eval_env = \<lparr>GetShellEscapedString = (\<lambda>s. s), EvaluateBindingInScope = (\<lambda>ts. []),
                   Scope_EvaluateVariableAtPos = (\<lambda>v. []), Scope_EvaluateVariable = (\<lambda>v. [])\<rparr>"

definition self_rule :: Rule where
  "self_rule = \<lparr>rule_name = ''self'', bindings = [(''command'', [Lit ''cc '', Var ''command''])]\<rparr>"

text \<open>
  A disk given by a table of LStat results; a path outside the table is a missing file.
  Removing a file makes it a path outside the table.
\<close>

definition table_disk :: "(string \<times> TimeStamp \<times> bool \<times> string) list DiskInterface" where
  "table_disk = \<lparr>
     Stat = (\<lambda>d p. case map_of d p of None \<Rightarrow> (0, []) | Some (t, dir, err) \<Rightarrow> (t, err)),
     LStat = (\<lambda>d p. case map_of d p of None \<Rightarrow> (0, False, []) | Some r \<Rightarrow> r),
     ReadFile = (\<lambda>d p. NotFound ''No such file or directory''),
     RemoveFile = (\<lambda>d p. filter (\<lambda>r. fst r \<noteq> p) d),
     IsStatThreadSafe = False\<rparr>"

text \<open>
  A store from a table: slot i of the table for i below its length, a fresh node or edge
  elsewhere. Node 0 is not used (it stands for the null pointer).
\<close>

definition store_of :: "'a \<Rightarrow> 'a list \<Rightarrow> nat \<Rightarrow> 'a" where
  "store_of dflt xs i = (if i < length xs then xs ! i else dflt)"

definition ex_state :: "Node list \<Rightarrow> Edge list \<Rightarrow> ScanState" where
  "ex_state ns es = \<lparr>node_at = store_of (new_node []) ns, edge_at = store_of (new_edge kPhonyRule) es,
                     node_count = length ns, edge_count = length es, scan_err = [],
                     scan_stack = []\<rparr>"

definition ex_env :: "(string \<times> TimeStamp \<times> bool \<times> string) list \<Rightarrow> BuildLog option
    \<Rightarrow> (node_id \<Rightarrow> Deps option) \<Rightarrow> (string \<times> TimeStamp \<times> bool \<times> string) list ScanEnv" where
  "ex_env d lg dl = \<lparr>disk_interface = table_disk, disk_state = d, build_log_of = lg,
                     deps_log_of = dl, eval_env = ex_eval_env,
                     DepfileParser_Parse = (\<lambda>s. Inl ''expected depfile''),
                     CanonicalizePath = (\<lambda>p. if p = [] then Inl ''empty path'' else Inr p),
                     HashCommand = (\<lambda>s. of_nat (length s)),
                     GetOptimalThreadPoolJobCount = 1\<rparr>"

text \<open>The graph \<open>build a: cat b\<close>, \<open>build b: cat a\<close> (nodes 1 and 2, edges 0 and 1).\<close>

definition cycle_state :: ScanState where
  "cycle_state = ex_state [new_node [], ex_node ''a'' (- 1) (Some 0), ex_node ''b'' (- 1) (Some 1)]
                          [ex_edge cat_rule [2] [1] no_info, ex_edge cat_rule [1] [2] no_info]"

definition cc_rule :: Rule where
  "cc_rule = \<lparr>rule_name = ''cc'', bindings =
     [(''command'', [Lit ''cc -c '', Var ''in'']), (''deps'', [Lit ''gcc'']),
      (''depfile'', [Var ''out'', Lit ''.d''])]\<rparr>"

text \<open>The graph \<open>build obj: cc src\<close> with deps (nodes 1 and 2, edge 0); its scan info
  is computed.\<close>

definition deps_state :: ScanState where
  "deps_state = ex_state [new_node [], ex_node ''obj'' 5 (Some 0), ex_node ''src'' 4 None]
                         [ex_edge cc_rule [2] [1] (no_info\<lparr>deps := True, depfile := True\<rparr>)]"

definition stale_deps_log :: "node_id \<Rightarrow> Deps option" where
  "stale_deps_log n = (if n = 1 then Some \<lparr>deps_mtime = 3, deps_nodes = [2]\<rparr> else None)"

definition content_disk :: "(string \<times> string) list DiskInterface" where
  "content_disk = \<lparr>
     Stat = (\<lambda>d p. if map_of d p = None then (0, []) else (1, [])),
     LStat = (\<lambda>d p. if map_of d p = None then (0, False, []) else (1, False, [])),
     ReadFile = (\<lambda>d p. case map_of d p of None \<Rightarrow> NotFound ''No such file or directory''
                        | Some c \<Rightarrow> Okay c),
     RemoveFile = (\<lambda>d p. filter (\<lambda>r. fst r \<noteq> p) d),
     IsStatThreadSafe = False\<rparr>"

definition content_env :: "(string \<times> string) list \<Rightarrow> (string \<times> string) list ScanEnv" where
  "content_env d = \<lparr>disk_interface = content_disk, disk_state = d, build_log_of = None,
                     deps_log_of = (\<lambda>n. None), eval_env = ex_eval_env,
                     DepfileParser_Parse = (\<lambda>s. Inl ''expected depfile''),
                     CanonicalizePath = (\<lambda>p. if p = [] then Inl ''empty path'' else Inr p),
                     HashCommand = (\<lambda>s. of_nat (length s)),
                     GetOptimalThreadPoolJobCount = 1\<rparr>"


text \<open>The graph \<open>build all: phony\<close> (node 1, edge 0).\<close>

definition phony_noinput_state :: ScanState where
  "phony_noinput_state = ex_state [new_node [], ex_node ''all'' (- 1) (Some 0)]
                                  [ex_edge kPhonyRule [] [1] no_info]"






section \<open>Properties of the output dirtiness test\<close>

lemma restat_entry_Some_iff:
  "restat_entry build_log edge output = Some en \<longleftrightarrow>
     IsRestat edge \<and> (\<exists>lg. build_log = Some lg \<and> lg (path output) = Some en)"
  by (auto simp: restat_entry_def split: option.splits)

lemma restat_entry_None_iff:
  "restat_entry build_log edge output = None \<longleftrightarrow>
     \<not> (IsRestat edge \<and> (\<exists>lg en. build_log = Some lg \<and> lg (path output) = Some en))"
  by (auto simp: restat_entry_def split: option.splits)

lemma build_log_check_no_OutputOlder:
  "OutputOlder u p q a b \<notin> set (snd (build_log_check build_log edge mri h output entry))"
  by (auto simp: build_log_check_def split: option.splits)

text \<open>
  C1. For a non-phony edge whose output exists and is older on disk than the most recent
  input, RecomputeOutputDirty reports the output dirty with the explanation of the mtime
  test, unless the edge is a restat rule and the build log has an entry for the output.
  In that case the entry's mtime replaces the on-disk mtime: the mtime test reports the
  output dirty (explanation "restat of output older than most recent input") exactly when
  the entry's mtime is older than the most recent input, and otherwise no explanation of
  the mtime test is emitted at all.
\<close>

theorem C1_mtime_test:
  assumes "\<not> is_phony edge" and "exists_node output"
    and "most_recent_input = Some inp" and "mtime output < mtime inp"
  shows "(\<not> (IsRestat edge \<and> (\<exists>lg en. build_log = Some lg \<and> lg (path output) = Some en)) \<longrightarrow>
            RecomputeOutputDirty build_log edge most_recent_input h output =
              (True, [OutputOlder False (path output) (path inp) (mtime output) (mtime inp)]))
       \<and> (\<forall>lg en. IsRestat edge \<and> build_log = Some lg \<and> lg (path output) = Some en \<longrightarrow>
            (entry_mtime en < mtime inp \<longrightarrow>
               RecomputeOutputDirty build_log edge most_recent_input h output =
                 (True, [OutputOlder True (path output) (path inp) (entry_mtime en) (mtime inp)]))
          \<and> (\<not> entry_mtime en < mtime inp \<longrightarrow>
               (\<forall>u p q a b. OutputOlder u p q a b \<notin>
                  set (snd (RecomputeOutputDirty build_log edge most_recent_input h output)))))"
proof (intro conjI allI impI)
  assume "\<not> (IsRestat edge \<and> (\<exists>lg en. build_log = Some lg \<and> lg (path output) = Some en))"
  then have "restat_entry build_log edge output = None"
    using restat_entry_None_iff [of build_log edge "output"] by blast
  with assms show "RecomputeOutputDirty build_log edge most_recent_input h output =
      (True, [OutputOlder False (path output) (path inp) (mtime output) (mtime inp)])"
    by (simp add: RecomputeOutputDirty_def mtime_check_def)
next
  fix lg en
  assume h: "IsRestat edge \<and> build_log = Some lg \<and> lg (path output) = Some en"
  then have re: "restat_entry build_log edge output = Some en"
    by (simp add: restat_entry_Some_iff)
  {
    assume "entry_mtime en < mtime inp"
    with assms re show "RecomputeOutputDirty build_log edge most_recent_input h output =
        (True, [OutputOlder True (path output) (path inp) (entry_mtime en) (mtime inp)])"
      by (simp add: RecomputeOutputDirty_def mtime_check_def)
  next
    fix u p q a b
    assume "\<not> entry_mtime en < mtime inp"
    with assms re have "RecomputeOutputDirty build_log edge most_recent_input h output =
        build_log_check build_log edge most_recent_input h output (Some en)"
      by (simp add: RecomputeOutputDirty_def mtime_check_def)
    then show "OutputOlder u p q a b \<notin>
        set (snd (RecomputeOutputDirty build_log edge most_recent_input h output))"
      by (simp add: build_log_check_no_OutputOlder)
  }
qed

theorem C1_mtime_test_witness:
  "\<not> is_phony (ex_edge cat_rule [0] [1] (no_info\<lparr>restat := True\<rparr>))
   \<and> exists_node (ex_node ''out'' 5 (Some 0))
   \<and> mtime (ex_node ''out'' 5 (Some 0)) < mtime (ex_node ''in'' 10 None)
   \<and> RecomputeOutputDirty (Some (ex_log ''out'' 7 8))
        (ex_edge cat_rule [0] [1] (no_info\<lparr>restat := True\<rparr>))
        (Some (ex_node ''in'' 10 None)) 7 (ex_node ''out'' 5 (Some 0))
      = (True, [OutputOlder True ''out'' ''in'' 8 10])
   \<and> RecomputeOutputDirty None
        (ex_edge cat_rule [0] [1] (no_info\<lparr>restat := True\<rparr>))
        (Some (ex_node ''in'' 10 None)) 7 (ex_node ''out'' 5 (Some 0))
      = (True, [OutputOlder False ''out'' ''in'' 5 10])
   \<and> OutputOlder True ''out'' ''in'' 12 10 \<notin> set (snd (RecomputeOutputDirty (Some (ex_log ''out'' 7 12))
        (ex_edge cat_rule [0] [1] (no_info\<lparr>restat := True\<rparr>))
        (Some (ex_node ''in'' 10 None)) 7 (ex_node ''out'' 5 (Some 0))))"
proof -
  let ?e = "ex_edge cat_rule [0] [1] (no_info\<lparr>restat := True\<rparr>)"
  let ?out = "ex_node ''out'' 5 (Some 0)"
  let ?in = "ex_node ''in'' 10 None"
  have a: "\<not> is_phony ?e"
    by (simp add: is_phony_def ex_edge_def cat_rule_def kPhonyRule_def)
  have b: "exists_node ?out" by (simp add: exists_node_def ex_node_def)
  have c: "mtime ?out < mtime ?in" by (simp add: ex_node_def)
  have r: "IsRestat ?e" by (simp add: IsRestat_def ex_edge_def no_info_def)
  have p: "path ?out = ''out''" "path ?in = ''in''" "mtime ?out = 5" "mtime ?in = 10"
    by (simp_all add: ex_node_def)
  note t1 = C1_mtime_test [OF a b refl c, of "Some (ex_log ''out'' 7 8)" 7]
  note t2 = C1_mtime_test [OF a b refl c, of None 7]
  note t3 = C1_mtime_test [OF a b refl c, of "Some (ex_log ''out'' 7 12)" 7]
  have l1: "ex_log ''out'' 7 8 ''out'' = Some \<lparr>entry_command_hash = 7, entry_mtime = 8\<rparr>"
    and l3: "ex_log ''out'' 7 12 ''out'' = Some \<lparr>entry_command_hash = 7, entry_mtime = 12\<rparr>"
    by (simp_all add: ex_log_def)
  from t1 r l1 p have g1: "RecomputeOutputDirty (Some (ex_log ''out'' 7 8)) ?e (Some ?in) 7 ?out
      = (True, [OutputOlder True ''out'' ''in'' 8 10])"
    by simp
  from t2 p have g2: "RecomputeOutputDirty None ?e (Some ?in) 7 ?out
      = (True, [OutputOlder False ''out'' ''in'' 5 10])"
    by simp
  from t3 r l3 p have g3: "OutputOlder True ''out'' ''in'' 12 10 \<notin>
      set (snd (RecomputeOutputDirty (Some (ex_log ''out'' 7 12)) ?e (Some ?in) 7 ?out))"
    by simp
  from a b c g1 g2 g3 show ?thesis by blast
qed

lemma mtime_check_entry:
  "fst (mtime_check (Some lg) edge mri output) = Some en \<Longrightarrow> lg (path output) = Some en"
  by (auto simp: mtime_check_def restat_entry_def Let_def split: option.splits if_splits)

lemma RecomputeOutputDirty_mtime_clean:
  assumes "\<not> is_phony edge" and "exists_node output"
    and "snd (mtime_check build_log edge mri output) = None"
  shows "RecomputeOutputDirty build_log edge mri h output =
           build_log_check build_log edge mri h output
             (fst (mtime_check build_log edge mri output))"
  using assms by (cases "mtime_check build_log edge mri output")
    (simp add: RecomputeOutputDirty_def)

text \<open>
  C2. For a non-phony edge with an existing output that the mtime test leaves clean, and
  with a build log present: if the log has an entry for the output and the edge is not a
  generator, a command hash different from the entry's makes the output dirty ("command
  line changed"); if the log has no entry and the edge is not a generator, the output is
  dirty ("command line not found in log"); for a generator edge neither of these two
  explanations is ever emitted.
\<close>

theorem C2_command_hash:
  assumes "\<not> is_phony edge" and "exists_node output"
    and "snd (mtime_check (Some lg) edge mri output) = None"
  shows "(\<forall>en. lg (path output) = Some en \<and> \<not> IsGenerator edge \<and> h \<noteq> entry_command_hash en \<longrightarrow>
            RecomputeOutputDirty (Some lg) edge mri h output =
              (True, [CommandLineChanged (path output)]))
       \<and> (lg (path output) = None \<and> \<not> IsGenerator edge \<longrightarrow>
            RecomputeOutputDirty (Some lg) edge mri h output =
              (True, [CommandNotInLog (path output)]))
       \<and> (IsGenerator edge \<longrightarrow>
            (\<forall>p. CommandLineChanged p \<notin> set (snd (RecomputeOutputDirty (Some lg) edge mri h output))
               \<and> CommandNotInLog p \<notin> set (snd (RecomputeOutputDirty (Some lg) edge mri h output))))"
proof -
  let ?entry = "fst (mtime_check (Some lg) edge mri output)"
  have eq: "RecomputeOutputDirty (Some lg) edge mri h output =
      build_log_check (Some lg) edge mri h output ?entry"
    using assms by (rule RecomputeOutputDirty_mtime_clean)
  have found: "(case ?entry of Some en \<Rightarrow> Some en | None \<Rightarrow> lg (path output)) = lg (path output)"
    using mtime_check_entry [of lg edge mri "output"] by (cases ?entry) simp_all
  have a: "\<forall>en. lg (path output) = Some en \<and> \<not> IsGenerator edge \<and> h \<noteq> entry_command_hash en \<longrightarrow>
      build_log_check (Some lg) edge mri h output ?entry = (True, [CommandLineChanged (path output)])"
    using found by (simp add: build_log_check_def)
  have b: "lg (path output) = None \<and> \<not> IsGenerator edge \<longrightarrow>
      build_log_check (Some lg) edge mri h output ?entry = (True, [CommandNotInLog (path output)])"
    using found by (simp add: build_log_check_def)
  have c: "IsGenerator edge \<longrightarrow>
      (\<forall>p. CommandLineChanged p \<notin> set (snd (build_log_check (Some lg) edge mri h output ?entry))
         \<and> CommandNotInLog p \<notin> set (snd (build_log_check (Some lg) edge mri h output ?entry)))"
    by (auto simp: build_log_check_def split: option.splits)
  from a b c show ?thesis unfolding eq by blast
qed

theorem C2_command_hash_witness:
  "\<not> is_phony (ex_edge cat_rule [0] [1] no_info)
   \<and> exists_node (ex_node ''out'' 11 (Some 0))
   \<and> snd (mtime_check (Some (ex_log ''out'' 8 11)) (ex_edge cat_rule [0] [1] no_info)
           (Some (ex_node ''in'' 10 None)) (ex_node ''out'' 11 (Some 0))) = None
   \<and> RecomputeOutputDirty (Some (ex_log ''out'' 8 11)) (ex_edge cat_rule [0] [1] no_info)
        (Some (ex_node ''in'' 10 None)) 7 (ex_node ''out'' 11 (Some 0))
      = (True, [CommandLineChanged ''out''])"
proof -
  let ?e = "ex_edge cat_rule [0] [1] no_info"
  let ?out = "ex_node ''out'' 11 (Some 0)"
  let ?in = "ex_node ''in'' 10 None"
  let ?lg = "ex_log ''out'' 8 11"
  have a: "\<not> is_phony ?e"
    by (simp add: is_phony_def ex_edge_def cat_rule_def kPhonyRule_def)
  have b: "exists_node ?out" by (simp add: exists_node_def ex_node_def)
  have c: "snd (mtime_check (Some ?lg) ?e (Some ?in) ?out) = None"
    by (simp add: mtime_check_def ex_node_def)
  have g: "\<not> IsGenerator ?e" by (simp add: IsGenerator_def ex_edge_def no_info_def)
  have l: "?lg (path ?out) = Some \<lparr>entry_command_hash = 8, entry_mtime = 11\<rparr>"
    by (simp add: ex_log_def ex_node_def)
  have p: "path ?out = ''out''" by (simp add: ex_node_def)
  from C2_command_hash [OF a b c, of 7] g l p
  have "RecomputeOutputDirty (Some ?lg) ?e (Some ?in) 7 ?out = (True, [CommandLineChanged ''out''])"
    by simp
  with a b c show ?thesis by blast
qed

section \<open>Properties of the edge evaluator\<close>

lemma eval_total_aux:
  "(recursion_count st \<le> kEvalRecursionLimit \<longrightarrow> kEvalRecursionLimit - recursion_count st < fuel \<longrightarrow>
     (\<exists>b st'. EvaluateVariable fuel env nodes ev var st = Some (b, st')
        \<and> recursion_count st \<le> recursion_count st' \<and> recursion_count st' \<le> kEvalRecursionLimit))"
  "(recursion_count st \<le> kEvalRecursionLimit \<longrightarrow> kEvalRecursionLimit - recursion_count st < fuel \<longrightarrow>
     (\<exists>b st'. EvaluateBindingOnRule fuel env nodes ev ts st = Some (b, st')
        \<and> recursion_count st \<le> recursion_count st' \<and> recursion_count st' \<le> kEvalRecursionLimit))"
proof (induction fuel env nodes ev var st and fuel env nodes ev ts st
       rule: EvaluateVariable_EvaluateBindingOnRule.induct)
  case (1 env nodes ev var st)
  then show ?case by simp
next
  case (2 fuel env nodes ev var st)
  show ?case
  proof (intro impI)
    assume le: "recursion_count st \<le> kEvalRecursionLimit"
      and lt: "kEvalRecursionLimit - recursion_count st < Suc fuel"
    show "\<exists>b st'. EvaluateVariable (Suc fuel) env nodes ev var st = Some (b, st')
        \<and> recursion_count st \<le> recursion_count st' \<and> recursion_count st' \<le> kEvalRecursionLimit"
    proof (cases "var = ''in'' \<or> var = ''in_newline'' \<or> var = ''out''")
      case True
      then show ?thesis using le by (auto simp: Let_def)
    next
      case nsp: False
      show ?thesis
      proof (cases "EvaluateVariableSelfOnly env (edge_of ev) var")
        case (Some s)
        then show ?thesis using nsp le by (auto simp: Let_def)
      next
        case None
        show ?thesis
        proof (cases "GetBinding (rule (edge_of ev)) var")
          case nb: None
          then show ?thesis using nsp None le by (auto simp: Let_def)
        next
          case (Some pat)
          show ?thesis
          proof (cases "recursion_count st = kEvalRecursionLimit")
            case True
            then show ?thesis using nsp None Some by (auto simp: Let_def)
          next
            case False
            let ?st1 = "st\<lparr>recursion_vars := (recursion_vars st)[recursion_count st := var],
                          recursion_count := Suc (recursion_count st)\<rparr>"
            have c1: "recursion_count ?st1 \<le> kEvalRecursionLimit" using le False by simp
            have c2: "kEvalRecursionLimit - recursion_count ?st1 < fuel" using lt le False by simp
            from "2.IH" [OF refl _ _ None Some False] nsp c1 c2
            obtain b st' where r: "EvaluateBindingOnRule fuel env nodes ev pat ?st1 = Some (b, st')"
              and m: "recursion_count ?st1 \<le> recursion_count st'" "recursion_count st' \<le> kEvalRecursionLimit"
              by auto
            from r m show ?thesis using nsp None Some False by (auto simp: Let_def)
          qed
        qed
      qed
    qed
  qed
next
  case (3 fuel env nodes ev st)
  then show ?case by auto
next
  case (4 fuel env nodes ev s ts st)
  then show ?case by simp
next
  case (5 fuel env nodes ev v ts st)
  show ?case
  proof (intro impI)
    assume le: "recursion_count st \<le> kEvalRecursionLimit"
      and lt: "kEvalRecursionLimit - recursion_count st < fuel"
    from "5.IH"(1) le lt obtain b st1 where
      r1: "EvaluateVariable fuel env nodes ev v st = Some (b, st1)"
      and m1: "recursion_count st \<le> recursion_count st1" "recursion_count st1 \<le> kEvalRecursionLimit"
      by auto
    show "\<exists>b st'. EvaluateBindingOnRule fuel env nodes ev (Var v # ts) st = Some (b, st')
        \<and> recursion_count st \<le> recursion_count st' \<and> recursion_count st' \<le> kEvalRecursionLimit"
    proof (cases b)
      case False
      then show ?thesis using r1 m1 by auto
    next
      case True
      have lt1: "kEvalRecursionLimit - recursion_count st1 < fuel" using lt m1 by simp
      from "5.IH"(2) [OF r1 [unfolded True] refl] m1 lt1 True
      obtain b2 st2 where r2: "EvaluateBindingOnRule fuel env nodes ev ts st1 = Some (b2, st2)"
        and m2: "recursion_count st1 \<le> recursion_count st2" "recursion_count st2 \<le> kEvalRecursionLimit"
        by auto
      then show ?thesis using r1 True m1 by auto
    qed
  qed
qed


lemma EvaluateVariable_Suc_cases [consumes 1, case_names special self limit rule scope]:
  assumes "EvaluateVariable (Suc fuel) env nodes ev var st = r"
  obtains
    s where "r = Some (True, st\<lparr>out_append := s\<rparr>)"
      and "var = ''in'' \<or> var = ''in_newline'' \<or> var = ''out''"
  | s where "r = Some (True, st\<lparr>out_append := out_append st @ s\<rparr>)"
      and "EvaluateVariableSelfOnly env (edge_of ev) var = Some s"
  | pat where "r = Some (False, st\<lparr>eval_err :=
                 ''cycle in rule variables: '' @ cycle_text (recursion_vars st)\<rparr>)"
      and "recursion_count st = kEvalRecursionLimit"
      and "GetBinding (rule (edge_of ev)) var = Some pat"
  | pat where "r = EvaluateBindingOnRule fuel env nodes ev pat
                 (st\<lparr>recursion_vars := (recursion_vars st)[recursion_count st := var],
                     recursion_count := Suc (recursion_count st)\<rparr>)"
      and "recursion_count st \<noteq> kEvalRecursionLimit"
      and "GetBinding (rule (edge_of ev)) var = Some pat"
      and "EvaluateVariableSelfOnly env (edge_of ev) var = None"
      and "var \<noteq> ''in''" "var \<noteq> ''in_newline''" "var \<noteq> ''out''"
  | s where "r = Some (True, st\<lparr>out_append := out_append st @ s\<rparr>)"
      and "GetBinding (rule (edge_of ev)) var = None"
proof (cases "var = ''in'' \<or> var = ''in_newline''")
  case True
  with assms have "\<exists>s. r = Some (True, st\<lparr>out_append := s\<rparr>)" by (auto simp: Let_def)
  with True that(1) show ?thesis by blast
next
  case n1: False
  show ?thesis
  proof (cases "var = ''out''")
    case True
    with assms n1 have "\<exists>s. r = Some (True, st\<lparr>out_append := s\<rparr>)" by (auto simp: Let_def)
    with True that(1) show ?thesis by blast
  next
    case n2: False
    show ?thesis
    proof (cases "EvaluateVariableSelfOnly env (edge_of ev) var")
      case (Some s)
      with assms n1 n2 have "r = Some (True, st\<lparr>out_append := out_append st @ s\<rparr>)"
        by (simp add: Let_def)
      with Some that(2) show ?thesis by blast
    next
      case None
      show ?thesis
      proof (cases "GetBinding (rule (edge_of ev)) var")
        case nb: None
        with assms n1 n2 None have "\<exists>s. r = Some (True, st\<lparr>out_append := out_append st @ s\<rparr>)"
          by (auto simp: Let_def)
        with nb that(5) show ?thesis by blast
      next
        case (Some pat)
        show ?thesis
        proof (cases "recursion_count st = kEvalRecursionLimit")
          case True
          with assms n1 n2 None Some have "r = Some (False, st\<lparr>eval_err :=
                 ''cycle in rule variables: '' @ cycle_text (recursion_vars st)\<rparr>)"
            by (simp add: Let_def)
          with True Some that(3) show ?thesis by blast
        next
          case False
          with assms n1 n2 None Some have "r = EvaluateBindingOnRule fuel env nodes ev pat
                 (st\<lparr>recursion_vars := (recursion_vars st)[recursion_count st := var],
                     recursion_count := Suc (recursion_count st)\<rparr>)"
            by (simp add: Let_def)
          with False Some None n1 n2 that(4) [of pat] show ?thesis by blast
        qed
      qed
    qed
  qed
qed

lemma eval_fail_form:
  "(EvaluateVariable fuel env nodes ev var st = Some (False, st') \<longrightarrow>
      eval_err st' = ''cycle in rule variables: '' @ cycle_text (recursion_vars st')
      \<and> recursion_count st' = kEvalRecursionLimit)"
  "(EvaluateBindingOnRule fuel env nodes ev ts st = Some (False, st') \<longrightarrow>
      eval_err st' = ''cycle in rule variables: '' @ cycle_text (recursion_vars st')
      \<and> recursion_count st' = kEvalRecursionLimit)"
proof (induction fuel env nodes ev var st and fuel env nodes ev ts st
       rule: EvaluateVariable_EvaluateBindingOnRule.induct)
  case (1 env nodes ev var st)
  show ?case by simp
next
  case (2 fuel env nodes ev var st)
  show ?case
  proof
    assume a: "EvaluateVariable (Suc fuel) env nodes ev var st = Some (False, st')"
    then show "eval_err st' = ''cycle in rule variables: '' @ cycle_text (recursion_vars st')
      \<and> recursion_count st' = kEvalRecursionLimit"
    proof (cases rule: EvaluateVariable_Suc_cases)
      case (limit pat)
      then show ?thesis by auto
    next
      case (rule pat)
      with "2.IH" [OF refl _ _ rule(4) rule(3) rule(2)] show ?thesis by simp
    qed simp_all
  qed
next
  case (3 fuel env nodes ev st)
  show ?case by simp
next
  case (4 fuel env nodes ev s ts st)
  then show ?case by simp
next
  case (5 fuel env nodes ev v ts st)
  show ?case
  proof
    assume r: "EvaluateBindingOnRule fuel env nodes ev (Var v # ts) st = Some (False, st')"
    then obtain b1 st1 where r1: "EvaluateVariable fuel env nodes ev v st = Some (b1, st1)"
      by (cases "EvaluateVariable fuel env nodes ev v st") auto
    show "eval_err st' = ''cycle in rule variables: '' @ cycle_text (recursion_vars st')
      \<and> recursion_count st' = kEvalRecursionLimit"
    proof (cases b1)
      case False
      with r r1 have "st1 = st'" by simp
      with "5.IH"(1) r1 False show ?thesis by simp
    next
      case True
      with r r1 have "EvaluateBindingOnRule fuel env nodes ev ts st1 = Some (False, st')" by simp
      with "5.IH"(2) [OF r1 [unfolded True] refl] True show ?thesis by simp
    qed
  qed
qed

lemma eval_keeps_first:
  "(0 < recursion_count st \<longrightarrow> EvaluateVariable fuel env nodes ev var st = Some (b, st') \<longrightarrow>
      recursion_vars st' ! 0 = recursion_vars st ! 0 \<and> 0 < recursion_count st'
      \<and> length (recursion_vars st') = length (recursion_vars st))"
  "(0 < recursion_count st \<longrightarrow> EvaluateBindingOnRule fuel env nodes ev ts st = Some (b, st') \<longrightarrow>
      recursion_vars st' ! 0 = recursion_vars st ! 0 \<and> 0 < recursion_count st'
      \<and> length (recursion_vars st') = length (recursion_vars st))"
proof (induction fuel env nodes ev var st and fuel env nodes ev ts st
       arbitrary: b st' and b st'
       rule: EvaluateVariable_EvaluateBindingOnRule.induct)
  case (1 env nodes ev var st)
  show ?case by simp
next
  case (2 fuel env nodes ev var st)
  show ?case
  proof (intro impI)
    assume pos: "0 < recursion_count st"
      and a: "EvaluateVariable (Suc fuel) env nodes ev var st = Some (b, st')"
    from a show "recursion_vars st' ! 0 = recursion_vars st ! 0 \<and> 0 < recursion_count st'
      \<and> length (recursion_vars st') = length (recursion_vars st)"
    proof (cases rule: EvaluateVariable_Suc_cases)
      case (rule pat)
      let ?st1 = "st\<lparr>recursion_vars := (recursion_vars st)[recursion_count st := var],
                     recursion_count := Suc (recursion_count st)\<rparr>"
      from "2.IH" [OF refl _ _ rule(4) rule(3) rule(2), of b st'] rule(1) rule(5,6,7)
      have "recursion_vars st' ! 0 = recursion_vars ?st1 ! 0 \<and> 0 < recursion_count st'
          \<and> length (recursion_vars st') = length (recursion_vars ?st1)"
        by simp
      with pos show ?thesis by simp
    qed (use pos in auto)
  qed
next
  case (3 fuel env nodes ev st)
  show ?case by auto
next
  case (4 fuel env nodes ev s ts st)
  from "4.IH" [of b st'] show ?case by simp
next
  case (5 fuel env nodes ev v ts st)
  show ?case
  proof (intro impI)
    assume pos: "0 < recursion_count st"
      and r: "EvaluateBindingOnRule fuel env nodes ev (Var v # ts) st = Some (b, st')"
    from r obtain b1 st1 where r1: "EvaluateVariable fuel env nodes ev v st = Some (b1, st1)"
      by (cases "EvaluateVariable fuel env nodes ev v st") auto
    from "5.IH"(1) [of b1 st1] pos r1 have k1: "recursion_vars st1 ! 0 = recursion_vars st ! 0"
      "0 < recursion_count st1" "length (recursion_vars st1) = length (recursion_vars st)"
      by simp_all
    show "recursion_vars st' ! 0 = recursion_vars st ! 0 \<and> 0 < recursion_count st'
      \<and> length (recursion_vars st') = length (recursion_vars st)"
    proof (cases b1)
      case False
      with r r1 have "st' = st1" by simp
      with k1 show ?thesis by simp
    next
      case True
      with r r1 have r2: "EvaluateBindingOnRule fuel env nodes ev ts st1 = Some (b, st')" by simp
      from "5.IH"(2) [OF r1 [unfolded True] refl, of b st'] k1 r2 True show ?thesis by simp
    qed
  qed
qed

lemma binding_success_refs:
  "EvaluateBindingOnRule fuel env nodes ev ts st = Some (True, st') \<Longrightarrow>
     w \<in> set (var_refs ts) \<Longrightarrow>
     \<exists>st1 st2. EvaluateVariable fuel env nodes ev w st1 = Some (True, st2)"
proof (induction ts arbitrary: st)
  case Nil
  then show ?case by simp
next
  case (Cons t ts)
  show ?case
  proof (cases t)
    case (Lit s)
    with Cons.prems have "EvaluateBindingOnRule fuel env nodes ev ts
        (st\<lparr>out_append := out_append st @ s\<rparr>) = Some (True, st')"
      and "w \<in> set (var_refs ts)" by simp_all
    then show ?thesis by (rule Cons.IH)
  next
    case (Var v)
    with Cons.prems(1) obtain st1 where
      r1: "EvaluateVariable fuel env nodes ev v st = Some (True, st1)"
      and r2: "EvaluateBindingOnRule fuel env nodes ev ts st1 = Some (True, st')"
      by (cases "EvaluateVariable fuel env nodes ev v st") (auto split: bool.splits)
    show ?thesis
    proof (cases "w = v")
      case True
      with r1 show ?thesis by blast
    next
      case False
      with Cons.prems(2) Var have "w \<in> set (var_refs ts)" by simp
      with Cons.IH r2 show ?thesis by blast
    qed
  qed
qed

lemma is_chain_append_step:
  "is_chain env e (xs @ [v]) \<Longrightarrow> rule_bound env e w \<Longrightarrow> w \<in> set (rule_refs e v) \<Longrightarrow>
     is_chain env e (xs @ [v, w])"
proof (induction xs)
  case Nil
  then show ?case by simp
next
  case (Cons x xs)
  show ?case
  proof (cases xs)
    case Nil
    with Cons show ?thesis by simp
  next
    case (Cons y ys)
    with Cons.prems Cons.IH show ?thesis by simp
  qed
qed


lemma is_chain_prefix: "is_chain env e (xs @ ys) \<Longrightarrow> is_chain env e xs"
proof (induction xs)
  case Nil
  show ?case by simp
next
  case (Cons x xs)
  show ?case
  proof (cases xs)
    case Nil
    with Cons.prems show ?thesis by (cases ys) simp_all
  next
    case (Cons y zs)
    with Cons.prems Cons.IH show ?thesis by simp
  qed
qed

lemma is_chain_hd: "is_chain env e (w # ws) \<Longrightarrow> rule_bound env e w"
  by (cases ws) simp_all

lemma lasso_step:
  assumes "is_chain env e (v # vs)" and "\<not> distinct (v # vs)"
  shows "\<exists>w ws. w \<in> set (rule_refs e v) \<and> is_chain env e (w # ws) \<and> \<not> distinct (w # ws)"
proof (cases vs)
  case Nil
  with assms show ?thesis by simp
next
  case (Cons w ws)
  with assms have wr: "w \<in> set (rule_refs e v)" and ch: "is_chain env e (w # ws)"
    and rv: "rule_bound env e v" by simp_all
  show ?thesis
  proof (cases "distinct (w # ws)")
    case False
    with wr ch show ?thesis by blast
  next
    case True
    with assms Cons have "v \<in> set (w # ws)" by auto
    from split_list [OF this] obtain ys zs where sp: "w # ws = ys @ v # zs" by blast
    then have "is_chain env e ((ys @ [v]) @ zs)" using ch by simp
    then have "is_chain env e (ys @ [v])" by (rule is_chain_prefix)
    then have c2: "is_chain env e (ys @ [v, w])"
      using is_chain_hd [OF ch] wr by (rule is_chain_append_step)
    from sp obtain us where us: "ys @ [v] = w # us" by (cases ys) auto
    then have "ys @ [v, w] = w # (us @ [w])" by (metis append.assoc append_Cons append_Nil)
    with c2 have "is_chain env e (w # (us @ [w]))" "\<not> distinct (w # (us @ [w]))" by simp_all
    with wr show ?thesis by blast
  qed
qed

lemma eval_no_success:
  "is_chain env (edge_of ev) (v # vs) \<Longrightarrow> \<not> distinct (v # vs) \<Longrightarrow>
     EvaluateVariable fuel env nodes ev v st \<noteq> Some (True, st')"
proof (induction fuel arbitrary: v vs st st')
  case 0
  show ?case by simp
next
  case (Suc fuel)
  have rb: "rule_bound env (edge_of ev) v" using Suc.prems(1) by (rule is_chain_hd)
  show ?case
  proof
    assume "EvaluateVariable (Suc fuel) env nodes ev v st = Some (True, st')"
    then show False
    proof (cases rule: EvaluateVariable_Suc_cases)
      case (special s)
      with rb show ?thesis by (auto simp: rule_bound_def)
    next
      case (self s)
      with rb show ?thesis by (simp add: rule_bound_def)
    next
      case (limit pat)
      then show ?thesis by simp
    next
      case (rule pat)
      from lasso_step [OF Suc.prems] obtain w ws where
        w: "w \<in> set (rule_refs (edge_of ev) v)" and ch: "is_chain env (edge_of ev) (w # ws)"
        and nd: "\<not> distinct (w # ws)" by blast
      from w rule(3) have "w \<in> set (var_refs pat)" by (simp add: rule_refs_def)
      with binding_success_refs [OF rule(1) [symmetric]] obtain st1 st2 where
        "EvaluateVariable fuel env nodes ev w st1 = Some (True, st2)" by blast
      with Suc.IH [OF ch nd] show ?thesis by blast
    next
      case (scope s)
      with rb show ?thesis by (simp add: rule_bound_def)
    qed
  qed
qed

lemma EvaluateVariable_total:
  assumes "recursion_count st \<le> kEvalRecursionLimit"
    and "kEvalRecursionLimit - recursion_count st < fuel"
  shows "\<exists>b st'. EvaluateVariable fuel env nodes ev var st = Some (b, st')"
  using eval_total_aux(1) [of st fuel env nodes ev var] assms by blast

lemma Edge_EvaluateVariable_total:
  "\<exists>r. Edge_EvaluateVariable env nodes e out key err phase escape = Some r"
proof -
  let ?st0 = "initial_EvalState\<lparr>out_append := out, eval_err := err\<rparr>"
  let ?ev = "\<lparr>edge_of = e, eval_phase = phase, escape_in_out = escape\<rparr>"
  have c0: "recursion_count ?st0 = 0" by (simp add: initial_EvalState_def)
  have "\<exists>b st'. EvaluateVariable (Suc kEvalRecursionLimit) env nodes ?ev key ?st0 = Some (b, st')"
    by (rule EvaluateVariable_total) (simp_all add: initial_EvalState_def)
  then show ?thesis unfolding Edge_EvaluateVariable_def by blast
qed

text \<open>
  Whenever the chain of rule-binding lookups that starts at the evaluated variable
  contains a cycle, that is, some chain of rule-bound variables, each referred to by the
  binding of its predecessor, reaches a name it already contains, the evaluation fails
  with a "cycle in rule variables: " error whose list starts at the evaluated variable.
\<close>

theorem EvaluateVariable_cycle_fails:
  assumes "is_chain env e (var # vs)" and "\<not> distinct (var # vs)"
  shows "\<exists>st'. Edge_EvaluateVariable env nodes e out var err phase escape = Some (False, st')
           \<and> eval_err st' = ''cycle in rule variables: '' @ cycle_text (recursion_vars st')
           \<and> hd (recursion_vars st') = var
           \<and> length (recursion_vars st') = kEvalRecursionLimit"
proof -
  let ?ev = "\<lparr>edge_of = e, eval_phase = phase, escape_in_out = escape\<rparr>"
  let ?st0 = "initial_EvalState\<lparr>out_append := out, eval_err := err\<rparr>"
  have c0: "recursion_count ?st0 = 0" by (simp add: initial_EvalState_def)
  have l0: "length (recursion_vars ?st0) = kEvalRecursionLimit" by (simp add: initial_EvalState_def)
  have pos: "0 < kEvalRecursionLimit" by (simp add: kEvalRecursionLimit_def)
  from eval_total_aux(1) [of ?st0 "Suc kEvalRecursionLimit" env nodes ?ev var] c0
  obtain b st' where r: "EvaluateVariable (Suc kEvalRecursionLimit) env nodes ?ev var ?st0 = Some (b, st')"
    by auto
  have ch: "is_chain env (edge_of ?ev) (var # vs)" using assms(1) by simp
  from eval_no_success [OF ch assms(2), of "Suc kEvalRecursionLimit" nodes ?st0 st'] r
  have b: "b = False" by auto
  from eval_fail_form(1) [of "Suc kEvalRecursionLimit" env nodes ?ev var ?st0 st'] r b
  have form: "eval_err st' = ''cycle in rule variables: '' @ cycle_text (recursion_vars st')"
    by simp
  have rb: "rule_bound env e var" using assms(1) by (rule is_chain_hd)
  from r have first: "recursion_vars st' ! 0 = var \<and> length (recursion_vars st') = kEvalRecursionLimit"
  proof (cases rule: EvaluateVariable_Suc_cases)
    case (special s)
    with rb show ?thesis by (auto simp: rule_bound_def)
  next
    case (self s)
    with rb show ?thesis by (simp add: rule_bound_def)
  next
    case (limit pat)
    with c0 pos show ?thesis by simp
  next
    case (rule pat)
    let ?st1 = "?st0\<lparr>recursion_vars := (recursion_vars ?st0)[recursion_count ?st0 := var],
                     recursion_count := Suc (recursion_count ?st0)\<rparr>"
    from eval_keeps_first(2) [of ?st1 "kEvalRecursionLimit" env nodes ?ev pat b st'] rule(1)
    have "recursion_vars st' ! 0 = recursion_vars ?st1 ! 0"
      "length (recursion_vars st') = length (recursion_vars ?st1)" by simp_all
    with c0 l0 pos show ?thesis by simp
  next
    case (scope s)
    with rb show ?thesis by (simp add: rule_bound_def)
  qed
  then have "hd (recursion_vars st') = var" using pos
    by (cases "recursion_vars st'") auto
  with r b form first show ?thesis by (simp add: Edge_EvaluateVariable_def)
qed

text \<open>
  C8. The code departs from the claim. The evaluator keeps no stack of the lookups in
  progress: \<open>recursion_count_\<close> is incremented at every rule-binding lookup and never
  decremented, \<open>recursion_vars_\<close> is never popped, and the only test is whether the
  counter has reached kEvalRecursionLimit. Three evaluations of \<open>command\<close> show it.

  \<^item> \<open>wide_rule\<close>: \<open>command = $description ... $description $depfile\<close> (fifteen
    references to description) and \<open>depfile = $depfile\<close>. The chain command, depfile,
    depfile revisits depfile, and the evaluation fails, but the message lists command and
    fifteen times description: depfile, the only variable of the cycle, is not named.
  \<^item> \<open>long_rule\<close>: \<open>command = $description ... $description\<close> (sixteen references)
    and \<open>description = x\<close>. No binding refers to a name on its own chain, yet the
    seventeenth lookup fails with a cycle error.
  \<^item> \<open>twice_rule\<close>: \<open>command = $description $description\<close>. The second lookup of
    description finds the name already recorded and succeeds.
\<close>

theorem C8_code_bug:
  "is_chain ex_eval_env (ex_edge wide_rule [] [] no_info) [''command'', ''depfile'', ''depfile'']
   \<and> map_option (\<lambda>(b, st). (b, eval_err st))
        (Edge_EvaluateVariable ex_eval_env (\<lambda>n. ex_node ''n'' 0 None)
           (ex_edge wide_rule [] [] no_info) [] ''command'' [] kFinalScope kShellEscape)
      = Some (False, ''cycle in rule variables: command -> description -> description -> description -> description -> description -> description -> description -> description -> description -> description -> description -> description -> description -> description -> description'')
   \<and> rule_refs (ex_edge long_rule [] [] no_info) ''description'' = []
   \<and> rule_refs (ex_edge long_rule [] [] no_info) ''command'' = replicate 16 ''description''
   \<and> map_option (\<lambda>(b, st). (b, eval_err st))
        (Edge_EvaluateVariable ex_eval_env (\<lambda>n. ex_node ''n'' 0 None)
           (ex_edge long_rule [] [] no_info) [] ''command'' [] kFinalScope kShellEscape)
      = Some (False, ''cycle in rule variables: command -> description -> description -> description -> description -> description -> description -> description -> description -> description -> description -> description -> description -> description -> description -> description'')
   \<and> map_option (\<lambda>(b, st). (b, out_append st))
        (Edge_EvaluateVariable ex_eval_env (\<lambda>n. ex_node ''n'' 0 None)
           (ex_edge twice_rule [] [] no_info) [] ''command'' [] kFinalScope kShellEscape)
      = Some (True, ''x x'')"
  by code_simp

section \<open>Properties of the interrupt cleanup\<close>












section \<open>Properties of the implicit dep loader\<close>

lemma upd_edge_same [simp]: "upd_edge e (\<lambda>_. edge_at st e) st = st"
  by (simp add: upd_edge_def)

lemma ComputeDepScanInfo_valid:
  "valid (dep_scan_info ed) \<Longrightarrow> ComputeDepScanInfo ev hash nodes ed = Inr ed"
  by (simp add: ComputeDepScanInfo_def PrecomputeDepScanInfo_def)

lemma LoadDeps_deps_log:
  assumes "valid (dep_scan_info (edge_at st e))" and "UsesDepsLog (edge_at st e)"
  shows "LoadDeps env e st = LoadDepsFromLog env e st"
  using assms by (simp add: LoadDeps_def ComputeDepScanInfo_valid)

lemma LoadDeps_depfile:
  assumes "valid (dep_scan_info (edge_at st e))" and "\<not> UsesDepsLog (edge_at st e)"
    and "UsesDepfile (edge_at st e)"
    and "GetUnescapedDepfile (eval_env env) (node_at st) (edge_at st e) = Inr pth" and "pth \<noteq> []"
  shows "LoadDeps env e st = LoadDepFile env e pth st"
  using assms by (simp add: LoadDeps_def ComputeDepScanInfo_valid)

lemma EnterEdge_silent_failure:
  assumes "StatOutputs env (outputs (edge_at (BeginVisit node e st) e)) (BeginVisit node e st)
             = (True, st4)"
    and "LoadDeps env e st4 = (Failure, st5)" and "scan_err st5 = []"
  shows "EnterEdge env node e st =
           (Success, True, upd_edge e (\<lambda>ed. ed\<lparr>deps_missing := True\<rparr>) st5)"
  using assms by (simp add: EnterEdge_def Let_def)

lemma ReadFile_Okay_empty:
  assumes "ReadFile (disk_interface env) (disk_state env) pth = Okay []"
  shows "LoadDepFile env e pth st = (Failure, st)"
  using assms by (simp add: LoadDepFile_def)

lemma ReadFile_NotFound:
  assumes "ReadFile (disk_interface env) (disk_state env) pth = NotFound msg"
  shows "LoadDepFile env e pth st = (Failure, st\<lparr>scan_err := []\<rparr>)"
  using assms by (simp add: LoadDepFile_def)

text \<open>
  C10. For an edge with a declared depfile, a depfile that exists but is empty is treated
  exactly like a missing one: LoadDepFile returns false and the error string stays empty,
  the same result as for a depfile that is not found, and the visit of the edge goes on
  with the local variable dirty set and deps_missing set on the edge.
\<close>

theorem C10_empty_depfile:
  fixes env :: "'d ScanEnv"
  assumes "ReadFile (disk_interface env) (disk_state env) pth = Okay []"
    and "scan_err st = []"
  shows "LoadDepFile env e pth st = (Failure, st)
       \<and> scan_err (snd (LoadDepFile env e pth st)) = []
       \<and> (\<forall>(env' :: 'd ScanEnv) msg. ReadFile (disk_interface env') (disk_state env') pth = NotFound msg \<longrightarrow>
            LoadDepFile env' e pth st = LoadDepFile env e pth st)
       \<and> (\<forall>node st0.
            valid (dep_scan_info (edge_at st e)) \<and> \<not> UsesDepsLog (edge_at st e)
            \<and> UsesDepfile (edge_at st e)
            \<and> GetUnescapedDepfile (eval_env env) (node_at st) (edge_at st e) = Inr pth \<and> pth \<noteq> []
            \<and> StatOutputs env (outputs (edge_at (BeginVisit node e st0) e)) (BeginVisit node e st0)
                 = (True, st) \<longrightarrow>
            EnterEdge env node e st0
              = (Success, True, upd_edge e (\<lambda>ed. ed\<lparr>deps_missing := True\<rparr>) st))"
proof -
  have l: "LoadDepFile env e pth st = (Failure, st)"
    using assms(1) by (rule ReadFile_Okay_empty)
  have same: "st\<lparr>scan_err := []\<rparr> = st" using assms(2) by (cases st) simp
  have nf: "LoadDepFile env' e pth st = LoadDepFile env e pth st"
    if "ReadFile (disk_interface env') (disk_state env') pth = NotFound msg" for env' :: "'d ScanEnv" and msg
    using ReadFile_NotFound [OF that, of e st] l same by simp
  have en: "EnterEdge env node e st0 = (Success, True, upd_edge e (\<lambda>ed. ed\<lparr>deps_missing := True\<rparr>) st)"
    if "valid (dep_scan_info (edge_at st e)) \<and> \<not> UsesDepsLog (edge_at st e)
            \<and> UsesDepfile (edge_at st e)
            \<and> GetUnescapedDepfile (eval_env env) (node_at st) (edge_at st e) = Inr pth \<and> pth \<noteq> []
            \<and> StatOutputs env (outputs (edge_at (BeginVisit node e st0) e)) (BeginVisit node e st0)
                 = (True, st)" for node st0
  proof -
    from that have "LoadDeps env e st = LoadDepFile env e pth st"
      by (intro LoadDeps_depfile) simp_all
    with l have "LoadDeps env e st = (Failure, st)" by simp
    with that assms(2) show ?thesis by (intro EnterEdge_silent_failure) simp_all
  qed
  from l assms(2) nf en show ?thesis by simp
qed

text \<open>The depfile obj.d exists and is empty.\<close>

theorem C10_empty_depfile_witness:
  "ReadFile (disk_interface (content_env [(''obj.d'', [])]))
            (disk_state (content_env [(''obj.d'', [])])) ''obj.d'' = Okay []
   \<and> scan_err deps_state = []
   \<and> LoadDepFile (content_env [(''obj.d'', [])]) 0 ''obj.d'' deps_state = (Failure, deps_state)"
proof -
  have a: "ReadFile (disk_interface (content_env [(''obj.d'', [])]))
            (disk_state (content_env [(''obj.d'', [])])) ''obj.d'' = Okay []"
    by (simp add: content_env_def content_disk_def)
  have b: "scan_err deps_state = []" by (simp add: deps_state_def ex_state_def)
  from C10_empty_depfile [OF a b, of 0] a b show ?thesis by blast
qed

lemma same_graph_refl [simp]: "same_graph st st"
  by (simp add: same_graph_def)

lemma same_graph_trans: "same_graph st st1 \<Longrightarrow> same_graph st1 st2 \<Longrightarrow> same_graph st st2"
  by (simp add: same_graph_def)

lemma same_graph_upd_node:
  "in_edge (f (node_at st n)) = in_edge (node_at st n) \<Longrightarrow> path (f (node_at st n)) = path (node_at st n)
     \<Longrightarrow> same_graph st (upd_node n f st)"
  by (simp add: same_graph_def upd_node_def)

lemma Node_Stat_same_graph: "Node_Stat env n st = (ok, st') \<Longrightarrow> same_graph st st'"
  by (auto simp: Node_Stat_def same_graph_def upd_node_def split: prod.splits)

lemma StatIfNecessary_same_graph: "StatIfNecessary env n st = (ok, st') \<Longrightarrow> same_graph st st'"
  by (auto simp: StatIfNecessary_def same_graph_upd_node dest: Node_Stat_same_graph split: if_splits)

lemma StatOutputs_same_graph: "StatOutputs env ns st = (ok, st') \<Longrightarrow> same_graph st st'"
proof (induction ns arbitrary: st)
  case Nil
  then show ?case by simp
next
  case (Cons n ns)
  obtain ok1 st1 where s1: "StatIfNecessary env n st = (ok1, st1)" by (cases "StatIfNecessary env n st")
  then have g1: "same_graph st st1" by (rule StatIfNecessary_same_graph)
  show ?case
  proof (cases ok1)
    case True
    with Cons.prems s1 have "StatOutputs env ns st1 = (ok, st')" by simp
    then have "same_graph st1 st'" by (rule Cons.IH)
    with g1 show ?thesis by (rule same_graph_trans)
  next
    case False
    with Cons.prems s1 g1 show ?thesis by simp
  qed
qed

lemma set_dirty_same_graph: "same_graph st (set_dirty n b st)"
  by (simp add: set_dirty_def same_graph_upd_node)

lemma RecomputeLeaf_same_graph: "RecomputeLeaf env n st = (out, st') \<Longrightarrow> same_graph st st'"
proof -
  assume a: "RecomputeLeaf env n st = (out, st')"
  obtain ok st1 where s1: "StatIfNecessary env n st = (ok, st1)" by (cases "StatIfNecessary env n st")
  then have g1: "same_graph st st1" by (rule StatIfNecessary_same_graph)
  have g2: "same_graph st (set_dirty n b st1)" for b
    using g1 set_dirty_same_graph by (rule same_graph_trans)
  from a s1 g1 g2 show ?thesis
    by (auto simp: RecomputeLeaf_def split: if_splits)
qed

lemma fold_MarkDirty_same_graph: "same_graph st (fold MarkDirty ns st)"
proof (induction ns arbitrary: st)
  case Nil
  show ?case by simp
next
  case (Cons n ns)
  have "same_graph st (MarkDirty n st)" by (simp add: MarkDirty_def same_graph_upd_node)
  with Cons.IH [of "MarkDirty n st"] show ?case by (auto intro: same_graph_trans)
qed

lemma fold_MarkDirty_dirty: "n \<in> set ns \<Longrightarrow> dirty (node_at (fold MarkDirty ns st) n)"
proof (induction ns arbitrary: st)
  case Nil
  then show ?case by simp
next
  case (Cons m ns)
  have keep: "dirty (node_at st n) \<Longrightarrow> dirty (node_at (fold MarkDirty ns st) n)" for st ns
    by (induction ns arbitrary: st) (auto simp: MarkDirty_def upd_node_def)
  show ?case
  proof (cases "n = m")
    case True
    have "dirty (node_at (MarkDirty m st) m)" by (simp add: MarkDirty_def upd_node_def)
    with True keep show ?thesis by simp
  next
    case False
    with Cons show ?thesis by simp
  qed
qed


lemma FinishVisit_cases:
  assumes "FinishVisit env node e is_dirty mri st = (out, st')"
  obtains st1 where
    "st1 = (if final_dirty env e is_dirty mri st then fold MarkDirty (outputs (edge_at st e)) st else st)"
    "edge_at st' = (edge_at st)(e := (edge_at st e)
        \<lparr>outputs_ready := (if final_dirty env e is_dirty mri st
                               \<and> \<not> (is_phony (edge_at st e) \<and> inputs (edge_at st e) = [])
                            then False else outputs_ready (edge_at st e)),
         mark := VisitDone\<rparr>)"
    "node_at st' = node_at st1" "edge_count st' = edge_count st" "node_count st' = node_count st"
    "scan_err st' = scan_err st"
    "out = Success \<and> scan_stack st = scan_stack st' @ [node]
     \<or> out = FatalError ''assert(stack->back() == node)'' \<and> scan_stack st' = scan_stack st
        \<and> (scan_stack st = [] \<or> last (scan_stack st) \<noteq> node)"
proof -
  let ?d = "final_dirty env e is_dirty mri st"
  let ?st1 = "if ?d then fold MarkDirty (outputs (edge_at st e)) st else st"
  have d: "snd (if \<not> is_dirty then RecomputeOutputsDirty (build_log_of env) st e mri is_dirty
                else (True, is_dirty)) = ?d"
    by (simp add: final_dirty_def)
  have ok: "fst (if \<not> is_dirty then RecomputeOutputsDirty (build_log_of env) st e mri is_dirty
                else (True, is_dirty))"
    by (simp add: RecomputeOutputsDirty_def Let_def)
  have g: "same_graph st ?st1" by (simp add: fold_MarkDirty_same_graph)
  then have e1: "edge_at ?st1 = edge_at st" and sk: "scan_stack ?st1 = scan_stack st"
    and ec: "edge_count ?st1 = edge_count st" and nc: "node_count ?st1 = node_count st"
    by (simp_all add: same_graph_def)
  have se: "scan_err ?st1 = scan_err st"
  proof -
    have "scan_err (fold MarkDirty ns s) = scan_err s" for ns s
      by (induction ns arbitrary: s) (simp_all add: MarkDirty_def upd_node_def)
    then show ?thesis by simp
  qed
  from assms d ok e1 sk ec nc se that [of ?st1] show ?thesis
    unfolding FinishVisit_def Let_def
    by (cases "if \<not> is_dirty then RecomputeOutputsDirty (build_log_of env) st e mri is_dirty
                else (True, is_dirty)")
       (auto simp: upd_edge_def fun_eq_iff snoc_eq_iff_butlast split: if_splits)
qed


lemma BeginVisit_edge:
  "edge_at (BeginVisit node e st) =
     (edge_at st)(e := (edge_at st e)\<lparr>mark := VisitInStack, outputs_ready := True,
                                       deps_missing := False\<rparr>)"
  "scan_stack (BeginVisit node e st) = scan_stack st @ [node]"
  "node_at (BeginVisit node e st) = node_at st"
  "edge_count (BeginVisit node e st) = edge_count st"
  "node_count (BeginVisit node e st) = node_count st"
  "scan_err (BeginVisit node e st) = scan_err st"
  by (simp_all add: BeginVisit_def upd_edge_def Let_def fun_eq_iff)

lemma VerifyDAG_not_in_stack:
  "in_edge (node_at st node) = Some e \<Longrightarrow> mark (edge_at st e) \<noteq> VisitInStack \<Longrightarrow>
     VerifyDAG node st = (Success, st)"
  by (simp add: VerifyDAG_def)


section \<open>Properties of the recursive walk\<close>

lemma loaded_refl [simp]: "loaded ed ed"
  by (simp add: loaded_def)

lemma loaded_trans: "loaded a b \<Longrightarrow> loaded b c \<Longrightarrow> loaded a c"
  by (simp add: loaded_def)

lemma load_step_refl [simp]: "load_step e st st"
  by (simp add: load_step_def)

lemma load_step_trans: "load_step e a b \<Longrightarrow> load_step e b c \<Longrightarrow> load_step e a c"
  unfolding load_step_def
  by (intro conjI allI impI) (auto intro: loaded_trans)

lemma load_step_err [simp]: "load_step e st (st\<lparr>scan_err := m\<rparr>)"
  by (simp add: load_step_def)

lemma load_step_upd_edge:
  "loaded (edge_at st e) (f (edge_at st e)) \<Longrightarrow> load_step e st (upd_edge e f st)"
  by (simp add: load_step_def upd_edge_def)

lemma load_step_same_graph: "same_graph st st' \<Longrightarrow> load_step e st st'"
  by (simp add: load_step_def same_graph_def)

lemma PreallocateSpace_step: "PreallocateSpace e n st = (pos, st') \<Longrightarrow> load_step e st st'"
  by (auto simp: PreallocateSpace_def Let_def loaded_def intro!: load_step_upd_edge)

lemma add_implicit_dep_step: "load_step e st (add_implicit_dep e pos n st)"
  by (auto simp: add_implicit_dep_def CreatePhonyInEdge_def AddEdge_def AddOutEdgeDepScan_def
        upd_edge_def upd_node_def load_step_def loaded_def)

lemma LoadDepsFromLog_nodes_step: "load_step e st (LoadDepsFromLog_nodes e pos ns st)"
proof (induction ns arbitrary: pos st)
  case Nil
  show ?case by simp
next
  case (Cons n ns)
  from load_step_trans [OF add_implicit_dep_step Cons] show ?case by simp
qed

lemma GetNode_step: "GetNode p st = (n, st') \<Longrightarrow> load_step e st st'"
  by (auto simp: GetNode_def load_step_def split: option.splits)

lemma LoadDepFile_ins_step: "LoadDepFile_ins env e pos ins st = (out, st') \<Longrightarrow> load_step e st st'"
proof (induction ins arbitrary: pos st)
  case Nil
  then show ?case by simp
next
  case (Cons i ins)
  show ?case
  proof (cases "CanonicalizePath env i")
    case (Inl msg)
    with Cons.prems show ?thesis by auto
  next
    case (Inr p)
    obtain n st1 where g: "GetNode p st = (n, st1)" by (cases "GetNode p st")
    with Cons.prems Inr
    have "LoadDepFile_ins env e (Suc pos) ins (add_implicit_dep e pos n st1) = (out, st')" by simp
    from Cons.IH [OF this] have "load_step e (add_implicit_dep e pos n st1) st'" .
    from load_step_trans [OF load_step_trans [OF GetNode_step [OF g] add_implicit_dep_step] this]
    show ?thesis .
  qed
qed

lemma LoadDepsFromLog_step: "LoadDepsFromLog env e st = (out, st') \<Longrightarrow> load_step e st st'"
proof -
  assume a: "LoadDepsFromLog env e st = (out, st')"
  show ?thesis
  proof (cases "outputs (edge_at st e)")
    case Nil
    with a show ?thesis by (simp add: LoadDepsFromLog_def)
  next
    case (Cons first_out rest)
    show ?thesis
    proof (cases "deps_log_of env first_out")
      case None
      with a Cons show ?thesis by (simp add: LoadDepsFromLog_def)
    next
      case (Some dps)
      show ?thesis
      proof (cases "mtime (node_at st first_out) > deps_mtime dps")
        case True
        with a Cons Some show ?thesis by (simp add: LoadDepsFromLog_def)
      next
        case False
        obtain pos st1 where p: "PreallocateSpace e (length (deps_nodes dps)) st = (pos, st1)"
          by (cases "PreallocateSpace e (length (deps_nodes dps)) st")
        with a Cons Some False
        have "st' = LoadDepsFromLog_nodes e pos (deps_nodes dps) st1"
          by (simp add: LoadDepsFromLog_def)
        with load_step_trans [OF PreallocateSpace_step [OF p] LoadDepsFromLog_nodes_step]
        show ?thesis by simp
      qed
    qed
  qed
qed

lemma LoadDepFile_parsed_step:
  assumes "(if content = [] then (Failure, st1)
              else
                (case DepfileParser_Parse env content of
                   Inl depfile_err \<Rightarrow> (Failure, st1\<lparr>scan_err := pth @ '': '' @ depfile_err\<rparr>)
                 | Inr (out, ins) \<Rightarrow>
                     (case CanonicalizePath env out of
                        Inl msg \<Rightarrow> (Failure, st1\<lparr>scan_err := pth @ '': '' @ msg\<rparr>)
                      | Inr out_path \<Rightarrow>
                          (case outputs (edge_at st1 e) of
                             [] \<Rightarrow> (FatalError ''outputs_[0]'', st1)
                           | first_output # _ \<Rightarrow>
                               if path (node_at st1 first_output) \<noteq> out_path
                               then (Failure, st1)
                               else
                                 (case PreallocateSpace e (length ins) st1 of (pos, st2) \<Rightarrow>
                                    LoadDepFile_ins env e pos ins st2))))) = (out, st')"
  shows "load_step e st1 st'"
proof (cases "content = []")
  case True
  with assms show ?thesis by simp
next
  case ne: False
  show ?thesis
  proof (cases "DepfileParser_Parse env content")
    case (Inl depfile_err)
    with assms ne show ?thesis by auto
  next
    case (Inr pr)
    obtain o1 ins where pr: "pr = (o1, ins)" by (cases pr)
    show ?thesis
    proof (cases "CanonicalizePath env o1")
      case (Inl msg)
      with assms ne Inr pr show ?thesis by auto
    next
      case cp: (Inr out_path)
      show ?thesis
      proof (cases "outputs (edge_at st1 e)")
        case Nil
        with assms ne Inr pr cp show ?thesis by auto
      next
        case (Cons first_output rest)
        show ?thesis
        proof (cases "path (node_at st1 first_output) \<noteq> out_path")
          case True
          with assms ne Inr pr cp Cons show ?thesis by auto
        next
          case False
          obtain pos st2 where p: "PreallocateSpace e (length ins) st1 = (pos, st2)"
            by (cases "PreallocateSpace e (length ins) st1")
          with assms ne Inr pr cp Cons False
          have "LoadDepFile_ins env e pos ins st2 = (out, st')" by simp
          from load_step_trans [OF PreallocateSpace_step [OF p] LoadDepFile_ins_step [OF this]]
          show ?thesis .
        qed
      qed
    qed
  qed
qed

lemma LoadDepFile_step: "LoadDepFile env e pth st = (out, st') \<Longrightarrow> load_step e st st'"
proof -
  assume a: "LoadDepFile env e pth st = (out, st')"
  show ?thesis
  proof (cases "ReadFile (disk_interface env) (disk_state env) pth")
    case (OtherError msg)
    with a show ?thesis by (auto simp: LoadDepFile_def)
  next
    case (NotFound msg)
    with a show ?thesis by (auto simp: LoadDepFile_def)
  next
    case (Okay content)
    show ?thesis
      by (rule LoadDepFile_parsed_step [of content st pth env e out st'])
         (use a Okay in \<open>simp add: LoadDepFile_def\<close>)
  qed
qed

lemma PrecomputeDepScanInfo_loaded:
  "PrecomputeDepScanInfo ev hash nodes ed err = (ok, ed', err') \<Longrightarrow> loaded ed ed'"
  unfolding PrecomputeDepScanInfo_def Let_def
  by (auto simp: loaded_def split: if_splits prod.splits)

lemma ComputeDepScanInfo_loaded:
  "ComputeDepScanInfo ev hash nodes ed = Inr ed' \<Longrightarrow> loaded ed ed'"
  by (auto simp: ComputeDepScanInfo_def split: prod.splits if_splits
        dest: PrecomputeDepScanInfo_loaded)

lemma LoadDeps_step: "LoadDeps env e st = (out, st') \<Longrightarrow> load_step e st st'"
proof -
  assume a: "LoadDeps env e st = (out, st')"
  show ?thesis
  proof (cases "ComputeDepScanInfo (eval_env env) (HashCommand env) (node_at st) (edge_at st e)")
    case (Inl fatal)
    with a show ?thesis by (simp add: LoadDeps_def)
  next
    case (Inr ed)
    let ?st1 = "upd_edge e (\<lambda>_. ed) st"
    have s1: "load_step e st ?st1"
      by (rule load_step_upd_edge) (rule ComputeDepScanInfo_loaded [OF Inr])
    have "load_step e ?st1 st'"
    proof (cases "UsesDepsLog ed")
      case True
      with a Inr have "LoadDepsFromLog env e ?st1 = (out, st')" by (simp add: LoadDeps_def)
      then show ?thesis by (rule LoadDepsFromLog_step)
    next
      case nl: False
      show ?thesis
      proof (cases "UsesDepfile ed")
        case False
        with a Inr nl show ?thesis by (simp add: LoadDeps_def)
      next
        case True
        show ?thesis
        proof (cases "GetUnescapedDepfile (eval_env env) (node_at ?st1) ed")
          case (Inl fatal)
          with a Inr nl True show ?thesis by (simp add: LoadDeps_def)
        next
          case dp: (Inr depfile_path)
          show ?thesis
          proof (cases "depfile_path = []")
            case True
            with a Inr nl \<open>UsesDepfile ed\<close> dp show ?thesis by (simp add: LoadDeps_def)
          next
            case False
            with a Inr nl \<open>UsesDepfile ed\<close> dp
            have "LoadDepFile env e depfile_path ?st1 = (out, st')" by (simp add: LoadDeps_def)
            then show ?thesis by (rule LoadDepFile_step)
          qed
        qed
      qed
    qed
    from load_step_trans [OF s1 this] show ?thesis .
  qed
qed

text \<open>What EnterEdge leaves of the edge it enters, and of the other edges.\<close>

lemma EnterEdge_effect:
  assumes "EnterEdge env node e st = (out, d, st2)"
  shows "edge_count st \<le> edge_count st2"
    and "\<forall>x < edge_count st. x \<noteq> e \<longrightarrow> edge_at st2 x = edge_at st x"
    and "scan_stack st2 = scan_stack st @ [node]"
    and "e < edge_count st \<Longrightarrow>
           loaded ((edge_at st e)\<lparr>mark := VisitInStack, outputs_ready := True, deps_missing := d\<rparr>)
                  (edge_at st2 e)"
    and "d \<Longrightarrow> out = Success"
proof -
  let ?st3 = "BeginVisit node e st"
  obtain ok st4 where so: "StatOutputs env (outputs (edge_at ?st3 e)) ?st3 = (ok, st4)"
    by (cases "StatOutputs env (outputs (edge_at ?st3 e)) ?st3")
  from StatOutputs_same_graph [OF so] have g: "same_graph ?st3 st4" .
  then have e4: "edge_at st4 = (edge_at st)(e := (edge_at st e)\<lparr>mark := VisitInStack,
                    outputs_ready := True, deps_missing := False\<rparr>)"
    and sk4: "scan_stack st4 = scan_stack st @ [node]" and ec4: "edge_count st4 = edge_count st"
    by (simp_all add: same_graph_def BeginVisit_edge)
  obtain o5 st5 where ld: "LoadDeps env e st4 = (o5, st5)" by (cases "LoadDeps env e st4")
  from LoadDeps_step [OF ld] have s5: "load_step e st4 st5" .
  have r: "(out, d, st2) =
      (if \<not> ok then (Failure, False, st4)
       else (case o5 of
               Success \<Rightarrow> (Success, False, st5)
             | Failure \<Rightarrow> if scan_err st5 \<noteq> [] then (Failure, False, st5)
                           else (Success, True, upd_edge e (\<lambda>ed. ed\<lparr>deps_missing := True\<rparr>) st5)
             | FatalError fatal \<Rightarrow> (FatalError fatal, False, st5)))"
    using assms so ld by (cases ok; cases o5) (auto simp: EnterEdge_def Let_def)
  have ec: "edge_count st2 = (if ok then edge_count st5 else edge_count st4)"
    using r by (auto simp: upd_edge_def split: Outcome.splits if_splits)
  have sk: "scan_stack st2 = (if ok then scan_stack st5 else scan_stack st4)"
    using r by (auto simp: upd_edge_def split: Outcome.splits if_splits)
  have ed1: "\<forall>x. x \<noteq> e \<longrightarrow> edge_at st2 x = (if ok then edge_at st5 x else edge_at st4 x)"
    using r by (auto simp: upd_edge_def split: Outcome.splits if_splits)
  have ed2: "edge_at st2 e = (if ok then (edge_at st5 e)\<lparr>deps_missing := d\<rparr> else edge_at st4 e)"
    if lt: "e < edge_count st"
  proof -
    from lt have l5: "\<not> deps_missing (edge_at st5 e)"
      using s5 e4 ec4 by (simp add: load_step_def loaded_def)
    with r show ?thesis
      by (auto simp: upd_edge_def split: Outcome.splits if_splits)
  qed
  show "d \<Longrightarrow> out = Success" using r by (auto split: Outcome.splits if_splits)
  show "edge_count st \<le> edge_count st2" using ec ec4 s5 by (auto simp: load_step_def)
  show "scan_stack st2 = scan_stack st @ [node]" using sk sk4 s5 by (auto simp: load_step_def)
  show "\<forall>x < edge_count st. x \<noteq> e \<longrightarrow> edge_at st2 x = edge_at st x"
    using ed1 e4 ec4 s5 by (auto simp: load_step_def)
  show "loaded ((edge_at st e)\<lparr>mark := VisitInStack, outputs_ready := True, deps_missing := d\<rparr>)
                  (edge_at st2 e)" if "e < edge_count st"
    using that ed2 [OF that] e4 ec4 s5 r by (auto simp: load_step_def loaded_def split: if_splits)
qed

lemma AfterInput_effect:
  assumes "AfterInput e i idx (d, mri) st = ((d', mri'), st')"
  shows "node_at st' = node_at st" "edge_count st' = edge_count st"
    "scan_stack st' = scan_stack st"
    "\<forall>x. x \<noteq> e \<longrightarrow> edge_at st' x = edge_at st x"
    "edge_at st' e = (edge_at st e)\<lparr>outputs_ready := outputs_ready (edge_at st' e)\<rparr>"
    "d' = (d \<or> (\<not> is_order_only (edge_at st e) idx \<and> dirty (node_at st i)))"
    "st' = snd (AfterInput e i 0 (False, None) st)"
  using assms
  by (auto simp: AfterInput_def Let_def upd_edge_def is_order_only_def
        split: option.splits if_splits)

lemma VerifyDAG_effect:
  assumes "VerifyDAG node st = (out, st')"
  shows "edge_at st' = edge_at st" "edge_count st' = edge_count st"
    "out = Success \<Longrightarrow> st' = st"
    "out = Success \<Longrightarrow> in_edge (node_at st node) = Some e \<Longrightarrow> mark (edge_at st e) \<noteq> VisitInStack"
  using assms
  by (auto simp: VerifyDAG_def Let_def split: option.splits if_splits)

lemma walk_frame:
  "RecomputeNodeDirty fuel env node st = Some (out, st') \<Longrightarrow>
     visited_kept st st' \<and> (out = Success \<longrightarrow> scan_stack st' = scan_stack st)"
  "RecomputeInputs fuel env e ins idx acc st = Some (out, acc', st') \<Longrightarrow>
     edge_count st \<le> edge_count st'
     \<and> (\<forall>x < edge_count st. mark (edge_at st x) \<noteq> Unvisited \<longrightarrow> x \<noteq> e
           \<longrightarrow> edge_at st' x = edge_at st x)
     \<and> (out = Success \<longrightarrow> scan_stack st' = scan_stack st)"
proof (induction fuel env node st and fuel env e ins idx acc st
       arbitrary: out st' and out acc' st'
       rule: RecomputeNodeDirty_RecomputeInputs.induct)
  case (1 env node st)
  then show ?case by simp
next
  case (2 fuel env node st)
  note prem = "2.prems"
  show ?case
  proof (cases "in_edge (node_at st node)")
    case None
    with prem have "RecomputeLeaf env node st = (out, st')" by simp
    from RecomputeLeaf_same_graph [OF this] show ?thesis
      by (simp add: same_graph_def visited_kept_def)
  next
    case (Some e)
    show ?thesis
    proof (cases "mark (edge_at st e) = VisitDone")
      case True
      with prem Some have "st' = st" "out = Success" by simp_all
      then show ?thesis by (simp add: visited_kept_def)
    next
      case nd: False
      obtain out1 st1 where v: "VerifyDAG node st = (out1, st1)" by (cases "VerifyDAG node st")
      note ve = VerifyDAG_effect [OF v]
      show ?thesis
      proof (cases "out1 \<noteq> Success")
        case True
        with prem Some nd v have "out = out1" "st' = st1" by simp_all
        with ve(1,2) True show ?thesis by (simp add: visited_kept_def)
      next
        case s1: False
        then have st1: "st1 = st" using ve(3) by simp
        from s1 ve(4) [OF _ Some] have "mark (edge_at st e) \<noteq> VisitInStack" by simp
        with nd have un: "mark (edge_at st e) = Unvisited" by (cases "mark (edge_at st e)") simp_all
        obtain out2 d0 st2 where en: "EnterEdge env node e st1 = (out2, d0, st2)"
          by (cases "EnterEdge env node e st1") auto
        note ee = EnterEdge_effect(1-3) [OF en [unfolded st1]]
        have k2: "visited_kept st st2" unfolding visited_kept_def using ee(1,2) un by auto
        show ?thesis
        proof (cases "out2 \<noteq> Success")
          case True
          with prem Some nd v s1 en have "out = out2" "st' = st2" by simp_all
          with k2 True show ?thesis by simp
        next
          case s2: False
          from prem Some nd v s1 en s2 obtain out3 acc3 st3 where
            ri: "RecomputeInputs fuel env e (inputs (edge_at st2 e)) 0 (d0, None) st2
                   = Some (out3, acc3, st3)"
            by (cases "RecomputeInputs fuel env e (inputs (edge_at st2 e)) 0 (d0, None) st2") auto
          from "2.IH" [OF Some nd v [symmetric] s1 en [symmetric] refl s2 ri]
          have f3: "edge_count st2 \<le> edge_count st3"
            "\<forall>x < edge_count st2. mark (edge_at st2 x) \<noteq> Unvisited \<longrightarrow> x \<noteq> e
                 \<longrightarrow> edge_at st3 x = edge_at st2 x"
            "out3 = Success \<longrightarrow> scan_stack st3 = scan_stack st2" by simp_all
          have k3: "visited_kept st st3"
            unfolding visited_kept_def
          proof (intro conjI allI impI)
            show "edge_count st \<le> edge_count st3" using ee(1) f3(1) by simp
            fix x assume x: "x < edge_count st" "mark (edge_at st x) \<noteq> Unvisited"
            with un have xe: "x \<noteq> e" by auto
            with x ee(2) have e2: "edge_at st2 x = edge_at st x" by simp
            with x xe ee(1) f3(2) show "edge_at st3 x = edge_at st x" by simp
          qed
          show ?thesis
          proof (cases "out3 \<noteq> Success")
            case True
            with prem Some nd v s1 en s2 ri have "out = out3" "st' = st3" by simp_all
            with k3 True show ?thesis by simp
          next
            case s3: False
            with prem Some nd v s1 en s2 ri
            have fv: "FinishVisit env node e (fst acc3) (snd acc3) st3 = (out, st')" by simp
            from fv show ?thesis
            proof (cases rule: FinishVisit_cases)
              case (1 stm)
              have "visited_kept st st'"
                unfolding visited_kept_def
              proof (intro conjI allI impI)
                show "edge_count st \<le> edge_count st'" using k3 1(4) by (simp add: visited_kept_def)
                fix x assume x: "x < edge_count st" "mark (edge_at st x) \<noteq> Unvisited"
                with un have xe: "x \<noteq> e" by auto
                with 1(2) have "edge_at st' x = edge_at st3 x" by simp
                with x k3 show "edge_at st' x = edge_at st x" by (simp add: visited_kept_def)
              qed
              moreover have "out = Success \<longrightarrow> scan_stack st' = scan_stack st"
                using 1(7) f3(3) s3 ee(3) by auto
              ultimately show ?thesis by simp
            qed
          qed
        qed
      qed
    qed
  qed
next
  case (3 fuel env e idx acc st)
  then show ?case by simp
next
  case (4 fuel env e i ins idx acc st)
  from "4.prems" obtain o1 st1 where r1: "RecomputeNodeDirty fuel env i st = Some (o1, st1)"
    by (cases "RecomputeNodeDirty fuel env i st") auto
  from "4.IH"(1) [OF r1] have k1: "visited_kept st st1"
    and s1: "o1 = Success \<longrightarrow> scan_stack st1 = scan_stack st" by simp_all
  show ?case
  proof (cases "o1 \<noteq> Success")
    case True
    with "4.prems" r1 have "out = o1" "st' = st1" by simp_all
    with k1 True show ?thesis by (simp add: visited_kept_def)
  next
    case False
    obtain acc1 st2 where ai: "AfterInput e i idx acc st1 = (acc1, st2)"
      by (cases "AfterInput e i idx acc st1")
    with "4.prems" r1 False
    have rest: "RecomputeInputs fuel env e ins (Suc idx) acc1 st2 = Some (out, acc', st')" by simp
    from ai have ai': "AfterInput e i idx (fst acc, snd acc) st1 = ((fst acc1, snd acc1), st2)"
      by simp
    note ae = AfterInput_effect(2-4) [OF ai']
    from "4.IH"(2) [OF r1 refl False ai [symmetric] rest]
    have f: "edge_count st2 \<le> edge_count st'"
      "\<forall>x < edge_count st2. mark (edge_at st2 x) \<noteq> Unvisited \<longrightarrow> x \<noteq> e
           \<longrightarrow> edge_at st' x = edge_at st2 x"
      "out = Success \<longrightarrow> scan_stack st' = scan_stack st2" by simp_all
    show ?thesis
    proof (intro conjI allI impI)
      show "edge_count st \<le> edge_count st'" using k1 ae(1) f(1) by (simp add: visited_kept_def)
    next
      fix x assume x: "x < edge_count st" "mark (edge_at st x) \<noteq> Unvisited" "x \<noteq> e"
      with k1 have e1: "edge_at st1 x = edge_at st x" "x < edge_count st1"
        by (auto simp: visited_kept_def)
      with x(3) ae have e2: "edge_at st2 x = edge_at st x" "x < edge_count st2" by simp_all
      with x f(2) show "edge_at st' x = edge_at st x" by simp
    next
      assume "out = Success"
      with f(3) ae(2) s1 False show "scan_stack st' = scan_stack st" by simp
    qed
  qed
qed

lemma ready_trans:
  "X = Y\<lparr>outputs_ready := p\<rparr> \<Longrightarrow> Y = Z\<lparr>outputs_ready := q\<rparr>
     \<Longrightarrow> X = Z\<lparr>outputs_ready := outputs_ready X\<rparr>"
  by simp

text \<open>The loop over the inputs of an edge changes nothing of the edge but outputs_ready.\<close>

lemma inputs_own:
  "RecomputeInputs fuel env e ins idx acc st = Some (out, acc', st') \<Longrightarrow> e < edge_count st
     \<Longrightarrow> mark (edge_at st e) \<noteq> Unvisited
     \<Longrightarrow> edge_at st' e = (edge_at st e)\<lparr>outputs_ready := outputs_ready (edge_at st' e)\<rparr>
         \<and> e < edge_count st'"
proof (induction ins arbitrary: idx acc st)
  case Nil
  then show ?case by simp
next
  case (Cons i ins)
  from Cons.prems(1) obtain o1 st1 where r1: "RecomputeNodeDirty fuel env i st = Some (o1, st1)"
    by (cases "RecomputeNodeDirty fuel env i st") auto
  from walk_frame(1) [OF r1] Cons.prems(2,3)
  have e1: "edge_at st1 e = edge_at st e" and l1: "e < edge_count st1"
    by (auto simp: visited_kept_def)
  show ?case
  proof (cases "o1 \<noteq> Success")
    case True
    with Cons.prems(1) r1 have "st' = st1" by simp
    with e1 l1 show ?thesis by simp
  next
    case False
    obtain acc1 st2 where ai: "AfterInput e i idx acc st1 = (acc1, st2)"
      by (cases "AfterInput e i idx acc st1")
    with Cons.prems(1) r1 False
    have rest: "RecomputeInputs fuel env e ins (Suc idx) acc1 st2 = Some (out, acc', st')" by simp
    from ai have ai': "AfterInput e i idx (fst acc, snd acc) st1 = ((fst acc1, snd acc1), st2)"
      by simp
    note ae = AfterInput_effect [OF ai']
    from ae(5) e1 have e2: "edge_at st2 e = (edge_at st e)\<lparr>outputs_ready := outputs_ready (edge_at st2 e)\<rparr>"
      by simp
    then have m2: "mark (edge_at st2 e) = mark (edge_at st e)"
      by (metis Edge.select_convs(9) Edge.surjective Edge.update_convs(11))
    from ae(2) l1 have l2: "e < edge_count st2" by simp
    from Cons.IH [OF rest l2] m2 Cons.prems(3)
    have "edge_at st' e = (edge_at st2 e)\<lparr>outputs_ready := outputs_ready (edge_at st' e)\<rparr>"
      and l': "e < edge_count st'" by simp_all
    from ready_trans [OF this(1) e2] l' show ?thesis by simp
  qed
qed

lemma ready_fields:
  assumes "X = Y\<lparr>outputs_ready := p\<rparr>"
  shows "inputs X = inputs Y" "order_only_deps X = order_only_deps Y" "outputs X = outputs Y"
    "rule X = rule Y" "mark X = mark Y" "deps_missing X = deps_missing Y"
  using assms by simp_all

text \<open>
  The value of the local variable dirty after the loop over the inputs: its value before
  the loop, or some input that is not order-only was dirty when the loop read its flag.
\<close>

lemma inputs_acc:
  "RecomputeInputs fuel env e ins idx (d, mri) st = Some (Success, (d', mri'), st')
     \<Longrightarrow> e < edge_count st \<Longrightarrow> mark (edge_at st e) \<noteq> Unvisited
     \<Longrightarrow> length (inputs_dirty fuel env e ins st) = length ins
         \<and> d' = (d \<or> (\<exists>j < length ins. \<not> is_order_only (edge_at st e) (idx + j)
                                          \<and> inputs_dirty fuel env e ins st ! j))"
proof (induction ins arbitrary: idx d mri st)
  case Nil
  then show ?case by simp
next
  case (Cons i ins)
  from Cons.prems(1) obtain o1 st1 where r1: "RecomputeNodeDirty fuel env i st = Some (o1, st1)"
    by (cases "RecomputeNodeDirty fuel env i st") auto
  from walk_frame(1) [OF r1] Cons.prems(2,3)
  have e1: "edge_at st1 e = edge_at st e" and l1: "e < edge_count st1"
    by (auto simp: visited_kept_def)
  from Cons.prems(1) r1 have o1: "o1 = Success" by (auto split: if_splits)
  obtain d1 mri1 st2 where ai: "AfterInput e i idx (d, mri) st1 = ((d1, mri1), st2)"
    by (cases "AfterInput e i idx (d, mri) st1") auto
  with Cons.prems(1) r1 o1
  have rest: "RecomputeInputs fuel env e ins (Suc idx) (d1, mri1) st2 = Some (Success, (d', mri'), st')"
    by simp
  note ae = AfterInput_effect [OF ai]
  from ae(5) e1 have e2: "edge_at st2 e = (edge_at st e)\<lparr>outputs_ready := outputs_ready (edge_at st2 e)\<rparr>"
    by simp
  note f2 = ready_fields [OF e2]
  from ae(2) l1 have l2: "e < edge_count st2" by simp
  from f2(5) Cons.prems(3) have m2: "mark (edge_at st2 e) \<noteq> Unvisited" by simp
  have oo: "is_order_only (edge_at st2 e) k = is_order_only (edge_at st e) k" for k
    using f2(1,2) by (simp add: is_order_only_def)
  have oo1: "is_order_only (edge_at st1 e) k = is_order_only (edge_at st e) k" for k
    using e1 by simp
  from Cons.IH [OF rest l2 m2]
  have len: "length (inputs_dirty fuel env e ins st2) = length ins"
    and acc: "d' = (d1 \<or> (\<exists>j < length ins. \<not> is_order_only (edge_at st e) (Suc idx + j)
                              \<and> inputs_dirty fuel env e ins st2 ! j))"
    by (simp_all add: oo)
  have ids: "inputs_dirty fuel env e (i # ins) st
      = dirty (node_at st1 i) # inputs_dirty fuel env e ins st2"
    using r1 o1 ae(7) by simp
  have d1: "d1 = (d \<or> (\<not> is_order_only (edge_at st e) idx \<and> dirty (node_at st1 i)))"
    using ae(6) oo1 by simp
  have "(\<exists>j < Suc (length ins). \<not> is_order_only (edge_at st e) (idx + j)
            \<and> (dirty (node_at st1 i) # inputs_dirty fuel env e ins st2) ! j)
      = ((\<not> is_order_only (edge_at st e) idx \<and> dirty (node_at st1 i))
         \<or> (\<exists>j < length ins. \<not> is_order_only (edge_at st e) (Suc idx + j)
                 \<and> inputs_dirty fuel env e ins st2 ! j))"
    by (simp add: Ex_less_Suc2)
  with len acc ids d1 show ?case by auto
qed

text \<open>
  The visit of a node whose in-edge is an unvisited edge of the graph, when EnterEdge and
  the visits of the inputs succeed: the visit succeeds, and what it leaves.
\<close>

lemma visit_result:
  assumes ie: "in_edge (node_at st node) = Some e" and lt: "e < edge_count st"
    and un: "mark (edge_at st e) = Unvisited"
    and en: "EnterEdge env node e st = (Success, d0, st2)"
    and ri: "RecomputeInputs fuel env e (inputs (edge_at st2 e)) 0 (d0, None) st2
               = Some (Success, (d, mri), st3)"
  shows "\<exists>st'. RecomputeNodeDirty (Suc fuel) env node st = Some (Success, st')
     \<and> scan_stack st' = scan_stack st
     \<and> mark (edge_at st' e) = VisitDone \<and> deps_missing (edge_at st' e) = d0
     \<and> outputs (edge_at st' e) = outputs (edge_at st e)
     \<and> inputs (edge_at st' e) = inputs (edge_at st2 e)
     \<and> outputs (edge_at st3 e) = outputs (edge_at st e)
     \<and> rule (edge_at st3 e) = rule (edge_at st e)
     \<and> inputs (edge_at st3 e) = inputs (edge_at st2 e)
     \<and> (inputs (edge_at st2 e) = [] \<longrightarrow> outputs_ready (edge_at st3 e))
     \<and> outputs_ready (edge_at st' e) =
         (if final_dirty env e d mri st3
             \<and> \<not> (is_phony (edge_at st e) \<and> inputs (edge_at st2 e) = [])
          then False else outputs_ready (edge_at st3 e))
     \<and> node_at st' = node_at (if final_dirty env e d mri st3
                               then fold MarkDirty (outputs (edge_at st e)) st3 else st3)
     \<and> d = (d0 \<or> (\<exists>j < length (inputs (edge_at st2 e)).
                      \<not> is_order_only (edge_at st2 e) j
                      \<and> inputs_dirty fuel env e (inputs (edge_at st2 e)) st2 ! j))"
proof -
  from un have v: "VerifyDAG node st = (Success, st)"
    using ie by (simp add: VerifyDAG_not_in_stack)
  note ee = EnterEdge_effect [OF en]
  from ee(1) lt have l2: "e < edge_count st2" by simp
  from ee(4) [OF lt]
  have ld: "loaded ((edge_at st e)\<lparr>mark := VisitInStack, outputs_ready := True, deps_missing := d0\<rparr>)
                  (edge_at st2 e)" .
  then have m2: "mark (edge_at st2 e) = VisitInStack" and o2: "outputs (edge_at st2 e) = outputs (edge_at st e)"
    and r2: "rule (edge_at st2 e) = rule (edge_at st e)" and dm2: "deps_missing (edge_at st2 e) = d0"
    and or2: "outputs_ready (edge_at st2 e)"
    by (simp_all add: loaded_def)
  from m2 have mu: "mark (edge_at st2 e) \<noteq> Unvisited" by simp
  from inputs_own [OF ri l2 mu]
  have e3: "edge_at st3 e = (edge_at st2 e)\<lparr>outputs_ready := outputs_ready (edge_at st3 e)\<rparr>" by simp
  note f3 = ready_fields [OF e3]
  from walk_frame(2) [OF ri] have sk3: "scan_stack st3 = scan_stack st2" by simp
  from inputs_acc [OF ri l2 mu]
  have acc: "d = (d0 \<or> (\<exists>j < length (inputs (edge_at st2 e)).
                      \<not> is_order_only (edge_at st2 e) j
                      \<and> inputs_dirty fuel env e (inputs (edge_at st2 e)) st2 ! j))"
    by simp
  have nil: "inputs (edge_at st2 e) = [] \<longrightarrow> outputs_ready (edge_at st3 e)"
  proof
    assume "inputs (edge_at st2 e) = []"
    with ri have "st3 = st2" by simp
    with or2 show "outputs_ready (edge_at st3 e)" by simp
  qed
  obtain out st' where fv: "FinishVisit env node e d mri st3 = (out, st')"
    by (cases "FinishVisit env node e d mri st3")
  from fv show ?thesis
  proof (cases rule: FinishVisit_cases)
    case (1 stm)
    from 1(7) sk3 ee(3) have o: "out = Success" and sk: "scan_stack st' = scan_stack st" by auto
    from ie un v en ri fv o
    have r: "RecomputeNodeDirty (Suc fuel) env node st = Some (Success, st')" by simp
    have ph: "is_phony (edge_at st3 e) = is_phony (edge_at st e)"
      using f3(4) r2 by (simp add: is_phony_def)
    from 1(2) have e': "edge_at st' e = (edge_at st3 e)
        \<lparr>outputs_ready := (if final_dirty env e d mri st3
                               \<and> \<not> (is_phony (edge_at st3 e) \<and> inputs (edge_at st3 e) = [])
                            then False else outputs_ready (edge_at st3 e)),
         mark := VisitDone\<rparr>" by simp
    show ?thesis
    proof (intro exI [of _ st'] conjI)
      show "RecomputeNodeDirty (Suc fuel) env node st = Some (Success, st')" by (rule r)
      show "scan_stack st' = scan_stack st" by (rule sk)
      show "mark (edge_at st' e) = VisitDone" using e' by simp
      show "deps_missing (edge_at st' e) = d0" using e' f3(6) dm2 by simp
      show "outputs (edge_at st' e) = outputs (edge_at st e)" using e' f3(3) o2 by simp
      show "inputs (edge_at st' e) = inputs (edge_at st2 e)" using e' f3(1) by simp
      show "outputs (edge_at st3 e) = outputs (edge_at st e)" using f3(3) o2 by simp
      show "rule (edge_at st3 e) = rule (edge_at st e)" using f3(4) r2 by simp
      show "inputs (edge_at st3 e) = inputs (edge_at st2 e)" by (rule f3(1))
      show "inputs (edge_at st2 e) = [] \<longrightarrow> outputs_ready (edge_at st3 e)" by (rule nil)
      show "outputs_ready (edge_at st' e) =
         (if final_dirty env e d mri st3
             \<and> \<not> (is_phony (edge_at st e) \<and> inputs (edge_at st2 e) = [])
          then False else outputs_ready (edge_at st3 e))"
        using e' ph f3(1) by simp
      show "node_at st' = node_at (if final_dirty env e d mri st3
                               then fold MarkDirty (outputs (edge_at st e)) st3 else st3)"
        using 1(1,3) f3(3) o2 by simp
      show "d = (d0 \<or> (\<exists>j < length (inputs (edge_at st2 e)).
                      \<not> is_order_only (edge_at st2 e) j
                      \<and> inputs_dirty fuel env e (inputs (edge_at st2 e)) st2 ! j))"
        by (rule acc)
    qed
  qed
qed

text \<open>When the visit of an input fails, the visit of the node fails in the same way.\<close>

lemma visit_failure:
  assumes ie: "in_edge (node_at st node) = Some e" and un: "mark (edge_at st e) = Unvisited"
    and en: "EnterEdge env node e st = (Success, d0, st2)"
    and ri: "RecomputeInputs fuel env e (inputs (edge_at st2 e)) 0 (d0, None) st2
               = Some (out, acc, st3)"
    and ns: "out \<noteq> Success"
  shows "RecomputeNodeDirty (Suc fuel) env node st = Some (out, st3)"
proof -
  from un have v: "VerifyDAG node st = (Success, st)"
    using ie by (simp add: VerifyDAG_not_in_stack)
  from ie un v en ri ns show ?thesis by simp
qed

text \<open>A visit that returns went through the loop over the inputs.\<close>

lemma visit_inputs:
  assumes ie: "in_edge (node_at st node) = Some e" and un: "mark (edge_at st e) = Unvisited"
    and en: "EnterEdge env node e st = (Success, d0, st2)"
    and r: "RecomputeNodeDirty (Suc fuel) env node st = Some (out, st')"
  shows "\<exists>out3 acc st3. RecomputeInputs fuel env e (inputs (edge_at st2 e)) 0 (d0, None) st2
               = Some (out3, acc, st3) \<and> (out3 \<noteq> Success \<longrightarrow> out = out3 \<and> st' = st3)
               \<and> (out = Success \<longrightarrow> out3 = Success)"
proof -
  from un have v: "VerifyDAG node st = (Success, st)"
    using ie by (simp add: VerifyDAG_not_in_stack)
  from ie un v en r obtain out3 acc st3 where
    ri: "RecomputeInputs fuel env e (inputs (edge_at st2 e)) 0 (d0, None) st2 = Some (out3, acc, st3)"
    by (cases "RecomputeInputs fuel env e (inputs (edge_at st2 e)) 0 (d0, None) st2") auto
  from ie un v en r ri have "out3 \<noteq> Success \<longrightarrow> out = out3 \<and> st' = st3"
    by (auto split: if_splits)
  then show ?thesis using ri by auto
qed


lemma LoadDeps_missing:
  assumes ci: "ComputeDepScanInfo (eval_env env) (HashCommand env) (node_at st) (edge_at st e) = Inr ed"
    and ul: "UsesDepsLog ed"
    and ou: "outputs (edge_at st e) = first_output # rest"
    and dl: "deps_log_of env first_output = None
         \<or> (\<exists>dps. deps_log_of env first_output = Some dps
                  \<and> deps_mtime dps < mtime (node_at st first_output))"
  shows "LoadDeps env e st = (Failure, upd_edge e (\<lambda>_. ed) st)"
proof -
  let ?st1 = "upd_edge e (\<lambda>_. ed) st"
  from ComputeDepScanInfo_loaded [OF ci] ou have o1: "outputs (edge_at ?st1 e) = first_output # rest"
    by (simp add: loaded_def upd_edge_def)
  have n1: "node_at ?st1 = node_at st" by (simp add: upd_edge_def)
  have "LoadDepsFromLog env e ?st1 = (Failure, ?st1)"
    using o1 dl n1 by (auto simp: LoadDepsFromLog_def)
  with ci ul show ?thesis by (simp add: LoadDeps_def)
qed

text \<open>
  C6. For an edge that declares deps (its scan info, cached or computed by LoadDeps, says
  so), LoadDeps returns false and leaves the error string as it was, hence empty when it
  was empty, when the deps log has no entry for the first output of the edge, and likewise
  when it has one but the mtime of that output is greater than the mtime of the entry. In
  both cases the visit of a node by RecomputeNodeDirty that enters the edge (unvisited
  until then) and reaches this call of LoadDeps after loading the output mtimes goes on
  with deps_missing set on the edge and the local variable dirty set: the visit returns
  whenever the loop over the inputs of the edge returns, with the outcome of the loop, so
  it fails only when the visit of an input fails; and when the visit succeeds, the edge is
  left with deps_missing set and the mark VisitDone, and every output of the edge is dirty.
\<close>

theorem C6_deps_missing:
  assumes ci: "ComputeDepScanInfo (eval_env env) (HashCommand env) (node_at st) (edge_at st e) = Inr ed"
    and ul: "UsesDepsLog ed"
    and ou: "outputs (edge_at st e) = first_output # rest"
    and er: "scan_err st = []"
    and dl: "deps_log_of env first_output = None
         \<or> (\<exists>dps. deps_log_of env first_output = Some dps
                  \<and> deps_mtime dps < mtime (node_at st first_output))"
  shows "LoadDeps env e st = (Failure, upd_edge e (\<lambda>_. ed) st)
       \<and> scan_err (snd (LoadDeps env e st)) = []
       \<and> (\<forall>node st0 fuel.
            in_edge (node_at st0 node) = Some e \<and> e < edge_count st0
            \<and> mark (edge_at st0 e) = Unvisited
            \<and> StatOutputs env (outputs (edge_at (BeginVisit node e st0) e)) (BeginVisit node e st0)
                = (True, st) \<longrightarrow>
            (\<exists>st2. EnterEdge env node e st0 = (Success, True, st2)
               \<and> deps_missing (edge_at st2 e)
               \<and> (\<forall>out acc st3.
                     RecomputeInputs fuel env e (inputs (edge_at st2 e)) 0 (True, None) st2
                       = Some (out, acc, st3) \<longrightarrow>
                     (\<exists>st'. RecomputeNodeDirty (Suc fuel) env node st0 = Some (out, st')))
               \<and> (\<forall>out st'.
                     RecomputeNodeDirty (Suc fuel) env node st0 = Some (out, st') \<longrightarrow>
                     (out = Success \<longrightarrow>
                        deps_missing (edge_at st' e) \<and> mark (edge_at st' e) = VisitDone
                        \<and> (\<forall>o_id \<in> set (outputs (edge_at st0 e)). dirty (node_at st' o_id)))
                     \<and> (out \<noteq> Success \<longrightarrow>
                          (\<exists>acc. RecomputeInputs fuel env e (inputs (edge_at st2 e)) 0
                                    (True, None) st2 = Some (out, acc, st'))))))"
proof (intro conjI allI impI)
  let ?st1 = "upd_edge e (\<lambda>_. ed) st"
  have ld: "LoadDeps env e st = (Failure, ?st1)" by (rule LoadDeps_missing [OF ci ul ou dl])
  have er1: "scan_err ?st1 = []" using er by (simp add: upd_edge_def)
  show "LoadDeps env e st = (Failure, ?st1)" by (rule ld)
  show "scan_err (snd (LoadDeps env e st)) = []" using ld er1 by simp
  fix node st0 fuel
  assume a: "in_edge (node_at st0 node) = Some e \<and> e < edge_count st0
            \<and> mark (edge_at st0 e) = Unvisited
            \<and> StatOutputs env (outputs (edge_at (BeginVisit node e st0) e)) (BeginVisit node e st0)
                = (True, st)"
  then have ie: "in_edge (node_at st0 node) = Some e" and lt: "e < edge_count st0"
    and un: "mark (edge_at st0 e) = Unvisited"
    and so: "StatOutputs env (outputs (edge_at (BeginVisit node e st0) e)) (BeginVisit node e st0)
                = (True, st)" by simp_all
  let ?st2 = "upd_edge e (\<lambda>ed. ed\<lparr>deps_missing := True\<rparr>) ?st1"
  have en: "EnterEdge env node e st0 = (Success, True, ?st2)"
    using so ld er1 by (rule EnterEdge_silent_failure)
  have dm: "deps_missing (edge_at ?st2 e)" by (simp add: upd_edge_def)
  have ret: "\<exists>st'. RecomputeNodeDirty (Suc fuel) env node st0 = Some (out, st')"
    if ri: "RecomputeInputs fuel env e (inputs (edge_at ?st2 e)) 0 (True, None) ?st2
              = Some (out, acc, st3)" for out acc st3
  proof (cases "out = Success")
    case True
    obtain d mri where acc: "acc = (d, mri)" by (cases acc)
    from visit_result [OF ie lt un en ri [unfolded True acc]] True show ?thesis by blast
  next
    case False
    from visit_failure [OF ie un en ri False] show ?thesis by blast
  qed
  have res: "(out = Success \<longrightarrow>
                 deps_missing (edge_at st' e) \<and> mark (edge_at st' e) = VisitDone
                 \<and> (\<forall>o_id \<in> set (outputs (edge_at st0 e)). dirty (node_at st' o_id)))
             \<and> (out \<noteq> Success \<longrightarrow>
                   (\<exists>acc. RecomputeInputs fuel env e (inputs (edge_at ?st2 e)) 0
                             (True, None) ?st2 = Some (out, acc, st')))"
    if r: "RecomputeNodeDirty (Suc fuel) env node st0 = Some (out, st')" for out st'
  proof -
    from visit_inputs [OF ie un en r] obtain out3 acc st3 where
      ri: "RecomputeInputs fuel env e (inputs (edge_at ?st2 e)) 0 (True, None) ?st2
             = Some (out3, acc, st3)"
      and f: "out3 \<noteq> Success \<longrightarrow> out = out3 \<and> st' = st3" by blast
    show ?thesis
    proof (cases "out3 = Success")
      case False
      with f ri show ?thesis by auto
    next
      case True
      obtain d mri where acc: "acc = (d, mri)" by (cases acc)
      from visit_result [OF ie lt un en ri [unfolded True acc]] obtain st'' where
        r': "RecomputeNodeDirty (Suc fuel) env node st0 = Some (Success, st'')"
        and m: "mark (edge_at st'' e) = VisitDone" and dmi: "deps_missing (edge_at st'' e) = True"
        and n: "node_at st'' = node_at (if final_dirty env e d mri st3
                               then fold MarkDirty (outputs (edge_at st0 e)) st3 else st3)"
        and dd: "d = (True \<or> (\<exists>j < length (inputs (edge_at ?st2 e)).
                      \<not> is_order_only (edge_at ?st2 e) j
                      \<and> inputs_dirty fuel env e (inputs (edge_at ?st2 e)) ?st2 ! j))"
        by blast
      from dd have "final_dirty env e d mri st3" by (simp add: final_dirty_def)
      with n have "\<forall>o_id \<in> set (outputs (edge_at st0 e)). dirty (node_at st'' o_id)"
        by (simp add: fold_MarkDirty_dirty)
      with r r' m dmi show ?thesis by simp
    qed
  qed
  show "\<exists>st2. EnterEdge env node e st0 = (Success, True, st2)
               \<and> deps_missing (edge_at st2 e)
               \<and> (\<forall>out acc st3.
                     RecomputeInputs fuel env e (inputs (edge_at st2 e)) 0 (True, None) st2
                       = Some (out, acc, st3) \<longrightarrow>
                     (\<exists>st'. RecomputeNodeDirty (Suc fuel) env node st0 = Some (out, st')))
               \<and> (\<forall>out st'.
                     RecomputeNodeDirty (Suc fuel) env node st0 = Some (out, st') \<longrightarrow>
                     (out = Success \<longrightarrow>
                        deps_missing (edge_at st' e) \<and> mark (edge_at st' e) = VisitDone
                        \<and> (\<forall>o_id \<in> set (outputs (edge_at st0 e)). dirty (node_at st' o_id)))
                     \<and> (out \<noteq> Success \<longrightarrow>
                          (\<exists>acc. RecomputeInputs fuel env e (inputs (edge_at st2 e)) 0
                                    (True, None) st2 = Some (out, acc, st'))))"
  proof (rule exI [of _ ?st2], intro conjI)
    show "EnterEdge env node e st0 = (Success, True, ?st2)" by (rule en)
    show "deps_missing (edge_at ?st2 e)" by (rule dm)
    show "\<forall>out acc st3.
            RecomputeInputs fuel env e (inputs (edge_at ?st2 e)) 0 (True, None) ?st2
              = Some (out, acc, st3) \<longrightarrow>
            (\<exists>st'. RecomputeNodeDirty (Suc fuel) env node st0 = Some (out, st'))"
      using ret by blast
    show "\<forall>out st'.
            RecomputeNodeDirty (Suc fuel) env node st0 = Some (out, st') \<longrightarrow>
            (out = Success \<longrightarrow>
               deps_missing (edge_at st' e) \<and> mark (edge_at st' e) = VisitDone
               \<and> (\<forall>o_id \<in> set (outputs (edge_at st0 e)). dirty (node_at st' o_id)))
            \<and> (out \<noteq> Success \<longrightarrow>
                 (\<exists>acc. RecomputeInputs fuel env e (inputs (edge_at ?st2 e)) 0
                           (True, None) ?st2 = Some (out, acc, st')))"
      using res by blast
  qed
qed

text \<open>
  The deps log entry of obj is older than obj: the visit of obj, and the whole scan from
  obj, succeed with deps_missing set on the edge and obj dirty.
\<close>

theorem C6_deps_missing_witness:
  "ComputeDepScanInfo (eval_env (ex_env [] None stale_deps_log))
       (HashCommand (ex_env [] None stale_deps_log))
       (node_at (BeginVisit 1 0 deps_state)) (edge_at (BeginVisit 1 0 deps_state) 0)
     = Inr (edge_at (BeginVisit 1 0 deps_state) 0)
   \<and> UsesDepsLog (edge_at (BeginVisit 1 0 deps_state) 0)
   \<and> stale_deps_log 1 = Some \<lparr>deps_mtime = 3, deps_nodes = [2]\<rparr>
   \<and> 3 < mtime (node_at (BeginVisit 1 0 deps_state) 1)
   \<and> LoadDeps (ex_env [] None stale_deps_log) 0 (BeginVisit 1 0 deps_state)
        = (Failure, BeginVisit 1 0 deps_state)
   \<and> (\<exists>st'. RecomputeNodeDirty 2 (ex_env [] None stale_deps_log) 1 deps_state = Some (Success, st')
          \<and> deps_missing (edge_at st' 0) \<and> mark (edge_at st' 0) = VisitDone
          \<and> dirty (node_at st' 1))
   \<and> map_option (\<lambda>(out, st). (out, deps_missing (edge_at st 0), dirty (node_at st 1)))
        (RecomputeNodesDirty 3 (ex_env [] None stale_deps_log) [1] deps_state)
      = Some (Success, True, True)"
proof -
  let ?env = "ex_env [] None stale_deps_log"
  let ?st = "BeginVisit 1 0 deps_state"
  have e0: "edge_at ?st 0 = (ex_edge cc_rule [2] [1] (no_info\<lparr>deps := True, depfile := True\<rparr>))
      \<lparr>mark := VisitInStack, outputs_ready := True, deps_missing := False\<rparr>"
    by (simp add: BeginVisit_def upd_edge_def deps_state_def ex_state_def store_of_def Let_def)
  have n1: "node_at ?st 1 = ex_node ''obj'' 5 (Some 0)"
    by (simp add: BeginVisit_def upd_edge_def deps_state_def ex_state_def store_of_def Let_def)
  have va: "valid (dep_scan_info (edge_at ?st 0))"
    unfolding e0 by (simp add: ex_edge_def no_info_def)
  have a1: "ComputeDepScanInfo (eval_env ?env) (HashCommand ?env) (node_at ?st) (edge_at ?st 0)
      = Inr (edge_at ?st 0)"
    by (rule ComputeDepScanInfo_valid [OF va])
  have a2: "UsesDepsLog (edge_at ?st 0)"
    unfolding e0 by (simp add: UsesDepsLog_def ex_edge_def no_info_def)
  have a3: "outputs (edge_at ?st 0) = 1 # []"
    unfolding e0 by (simp add: ex_edge_def)
  have a4: "scan_err ?st = []"
    by (simp add: BeginVisit_def upd_edge_def deps_state_def ex_state_def Let_def)
  have d: "deps_log_of ?env 1 = Some \<lparr>deps_mtime = 3, deps_nodes = [2]\<rparr>"
    by (simp add: ex_env_def stale_deps_log_def)
  have m: "(3::int) < mtime (node_at ?st 1)" unfolding n1 by (simp add: ex_node_def)
  have a5: "deps_log_of ?env 1 = None
      \<or> (\<exists>dps. deps_log_of ?env 1 = Some dps \<and> deps_mtime dps < mtime (node_at ?st 1))"
    using d m by simp
  have sk: "StatIfNecessary ?env 1 ?st = (True, ?st)"
    unfolding StatIfNecessary_def n1 by (simp add: status_known_def ex_node_def)
  have so: "StatOutputs ?env (outputs (edge_at ?st 0)) ?st = (True, ?st)"
    unfolding a3 by (simp add: sk del: One_nat_def)
  have ie: "in_edge (node_at deps_state 1) = Some 0"
    by (simp add: deps_state_def ex_state_def store_of_def ex_node_def)
  have lt: "0 < edge_count deps_state" by (simp add: deps_state_def ex_state_def)
  have un: "mark (edge_at deps_state 0) = Unvisited"
    by (simp add: deps_state_def ex_state_def store_of_def ex_edge_def)
  have ou: "outputs (edge_at deps_state 0) = [1]"
    by (simp add: deps_state_def ex_state_def store_of_def ex_edge_def)
  have run: "map_option fst (RecomputeNodeDirty 2 ?env 1 deps_state) = Some Success"
    by code_simp
  then obtain st' where r: "RecomputeNodeDirty (Suc 1) ?env 1 deps_state = Some (Success, st')"
    by (cases "RecomputeNodeDirty 2 ?env 1 deps_state") (auto simp: numeral_2_eq_2)
  note t = C6_deps_missing [OF a1 a2 a3 a4 a5]
  from t have ld: "LoadDeps ?env 0 ?st = (Failure, upd_edge 0 (\<lambda>_. edge_at ?st 0) ?st)"
    by blast
  from t ie lt un so r
  have "deps_missing (edge_at st' 0) \<and> mark (edge_at st' 0) = VisitDone
        \<and> (\<forall>o_id \<in> set (outputs (edge_at deps_state 0)). dirty (node_at st' o_id))"
    by blast
  with ou have p: "deps_missing (edge_at st' 0) \<and> mark (edge_at st' 0) = VisitDone
        \<and> dirty (node_at st' 1)" by simp
  have scan: "map_option (\<lambda>(out, st). (out, deps_missing (edge_at st 0), dirty (node_at st 1)))
        (RecomputeNodesDirty 3 ?env [1] deps_state) = Some (Success, True, True)"
    by code_simp
  from r have r2: "RecomputeNodeDirty 2 ?env 1 deps_state = Some (Success, st')"
    by (simp add: numeral_2_eq_2)
  from a1 a2 d m ld r2 p scan show ?thesis by (auto simp: stale_deps_log_def)
qed






section \<open>Properties of the build plan\<close>

lemma set_want_fields [simp]:
  "want (set_want e v w) = (want w)(e \<mapsto> v)"
  "graph (set_want e v w) = graph w"
  "command_edges (set_want e v w) = command_edges w"
  "wanted_edges (set_want e v w) = wanted_edges w"
  "ready (set_want e v w) = ready w"
  "pool_state (set_want e v w) = pool_state w"
  "plan_err (set_want e v w) = plan_err w"
  by (simp_all add: set_want_def)



































end
